theory Spec2Isabelle
  imports Main "HOL-Library.AList"
begin

section \<open>Python values, errors, tensors\<close>

text \<open>
  The two modules verified here are \<^verbatim>\<open>src_ti/world.py\<close> (classes \<^verbatim>\<open>Channel\<close> and
  \<^verbatim>\<open>World\<close> with its resolver \<^verbatim>\<open>_windex\<close>) and \<^verbatim>\<open>coralai/substrate/substrate.py\<close>
  (class \<^verbatim>\<open>Substrate\<close>).

  Every \<^verbatim>\<open>raise\<close> of the sources is a constructor of \<open>error\<close>. The sources raise
  \<^verbatim>\<open>ValueError\<close> with different messages; each message has its own constructor, named
  after the failure it reports. Errors raised by Python itself (a missing dictionary key,
  a bad keyword argument, an attribute of \<^verbatim>\<open>None\<close>, an index out of range) keep
  Python's names.
\<close>

datatype error =
    AlreadyAllocated      \<comment> \<open>"Cannot add channel(s) after world memory is allocated", "Cannot allocate world memory twice"\<close>
  | NotAllocated          \<comment> \<open>"World memory not allocated yet"\<close>
  | InvalidShape          \<comment> \<open>"Channel shape must be 2 or 3 dimensional"\<close>
  | PrefixMismatch        \<comment> \<open>"Channel shape must be (w, h, ...)"\<close>
  | GroupingDepth         \<comment> \<open>"Channel grouping only supported up to a depth of 2"\<close>
  | ShapeMismatch         \<comment> \<open>"Cannot set channel(s) ... to value of shape ..."\<close>
  | UnsupportedIndexMode  \<comment> \<open>"Cannot return ti field for multi index"\<close>
  | ReadOnlyIndex         \<comment> \<open>"World indices are read-only"\<close>
  | NotImplementedError   \<comment> \<open>"Setting world values not implemented yet"\<close>
  | KeyError string
  | TypeError
  | AttributeError
  | IndexError
  | RuntimeError

text \<open>
  The element type tags of the tensor library. The sources only store and pass them on.
\<close>

datatype ti_dtype = F32 | I32 | Vector nat ti_dtype | Struct "(string \<times> ti_dtype) list"

text \<open>
  The values a caller can put into a channel declaration: \<^verbatim>\<open>add_channels\<close> tests
  \<^verbatim>\<open>isinstance(ch, dict)\<close> and unpacks a dictionary as keyword arguments.
\<close>

datatype pyval =
    PNone
  | PInt int
  | PStr string
  | PType ti_dtype
  | PList "pyval list"
  | PDict "(string \<times> pyval) list"

text \<open>Python's truth value, as used by \<^verbatim>\<open>if lims\<close>.\<close>

fun truthy :: "pyval \<Rightarrow> bool" where
  "truthy PNone = False"
| "truthy (PInt i) = (i \<noteq> 0)"
| "truthy (PStr s) = (s \<noteq> [])"
| "truthy (PType t) = True"
| "truthy (PList xs) = (xs \<noteq> [])"
| "truthy (PDict kvs) = (kvs \<noteq> [])"

text \<open>
  A tensor is its shape and its contents. The sources slice and assign along the last
  (depth) axis only and always take the two grid axes whole (\<^verbatim>\<open>mem[:, :, inds]\<close>), so
  the contents are kept as the list of depth slices, each a grid of \<open>W\<close> rows of \<open>H\<close>
  elements. A tensor of shape \<open>(W, H)\<close> has one slice; one of shape \<open>(W, H, D)\<close> has
  \<open>D\<close>. Elements are of an arbitrary type \<open>'a\<close>: element type casts
  (\<^verbatim>\<open>.type(self.torch_dtype)\<close>, \<^verbatim>\<open>copy_\<close>) are the identity on it, and the warning that
  goes with a cast is not an effect on the state.
\<close>

record 'a tensor =
  tshape :: "nat list"
  planes :: "'a list list list"

text \<open>The number of depth slices a shape stands for.\<close>

definition depth_of :: "nat list \<Rightarrow> nat" where
  "depth_of shp = (if length shp = 2 then 1 else shp ! 2)"

definition zero_plane :: "nat \<Rightarrow> nat \<Rightarrow> ('a::zero) list list" where
  "zero_plane W H = replicate W (replicate H 0)"

text \<open>\<^verbatim>\<open>torch.zeros((W, H, D))\<close>.\<close>

definition torch_zeros :: "nat \<Rightarrow> nat \<Rightarrow> nat \<Rightarrow> ('a::zero) tensor" where
  "torch_zeros W H D = \<lparr>tshape = [W, H, D], planes = replicate D (zero_plane W H)\<rparr>"

text \<open>
  \<^verbatim>\<open>torch.empty((W, H, D))\<close>: the contents are whatever the allocator finds. They are a
  parameter \<open>g\<close>, read at (slice, row, column).
\<close>

definition torch_empty :: "(nat \<Rightarrow> nat \<Rightarrow> nat \<Rightarrow> 'a) \<Rightarrow> nat \<Rightarrow> nat \<Rightarrow> nat \<Rightarrow> 'a tensor" where
  "torch_empty g W H D =
     \<lparr>tshape = [W, H, D],
      planes = map (\<lambda>k. map (\<lambda>x. map (\<lambda>y. g k x y) [0..<H]) [0..<W]) [0..<D]\<rparr>"

text \<open>\<^verbatim>\<open>t.unsqueeze(2)\<close> on a tensor of shape \<open>(W, H)\<close>.\<close>

definition unsqueeze2 :: "'a tensor \<Rightarrow> 'a tensor" where
  "unsqueeze2 t = t\<lparr>tshape := tshape t @ [1]\<rparr>"

text \<open>\<^verbatim>\<open>t.squeeze(2)\<close> on a tensor with three axes: the last axis goes when its size is 1.\<close>

definition squeeze2 :: "'a tensor \<Rightarrow> 'a tensor" where
  "squeeze2 t = (if tshape t ! 2 = 1 then t\<lparr>tshape := take 2 (tshape t)\<rparr> else t)"

text \<open>
  \<^verbatim>\<open>t[:, :, inds]\<close> with an index array: a new tensor holding the slices named by
  \<open>inds\<close>, in that order. An index past the last slice raises.
\<close>

definition index_depth :: "'a tensor \<Rightarrow> nat list \<Rightarrow> error + 'a tensor" where
  "index_depth t inds =
     (if \<forall>i \<in> set inds. i < length (planes t)
      then Inr \<lparr>tshape = take 2 (tshape t) @ [length inds],
                planes = map (\<lambda>i. planes t ! i) inds\<rparr>
      else Inl IndexError)"

text \<open>
  \<^verbatim>\<open>t[:, :, inds] = v\<close>: slice \<open>inds[j]\<close> of \<open>t\<close> becomes slice \<open>j\<close> of \<open>v\<close>, in place.
  A value with a single slice is broadcast to every index; any other difference between
  the number of slices and the number of indices raises, as does an index past the last
  slice.
\<close>

fun assign_planes :: "'a list list list \<Rightarrow> nat list \<Rightarrow> 'a list list list \<Rightarrow> 'a list list list" where
  "assign_planes ps (i # inds) (v # vs) = assign_planes (ps[i := v]) inds vs"
| "assign_planes ps _ _ = ps"

definition assign_depth :: "'a tensor \<Rightarrow> nat list \<Rightarrow> 'a tensor \<Rightarrow> error + 'a tensor" where
  "assign_depth t inds v =
     (if \<not> (\<forall>i \<in> set inds. i < length (planes t)) then Inl IndexError
      else if length (planes v) = length inds
        then Inr (t\<lparr>planes := assign_planes (planes t) inds (planes v)\<rparr>)
      else if length (planes v) = 1
        then Inr (t\<lparr>planes := assign_planes (planes t) inds
                                 (replicate (length inds) (planes v ! 0))\<rparr>)
      else Inl RuntimeError)"

section \<open>The index tree and the layout loops\<close>

text \<open>
  The index tree is a dictionary from channel name to a dictionary with the keys
  \<^verbatim>\<open>'indices'\<close>, \<^verbatim>\<open>'indices_ti'\<close> (World only) and \<^verbatim>\<open>'subchannels'\<close> (groups only). A key
  that a dictionary may lack is an \<open>option\<close>. Dictionaries keep insertion order, so they
  are association lists; \<open>AList.update\<close> is Python's \<^verbatim>\<open>d[k] = v\<close> (replace in place, or
  append).
\<close>

record leaf =
  indices :: "nat list"
  indices_ti :: "nat list option"

record node = leaf +
  subchannels :: "(string \<times> leaf) list option"

text \<open>
  What \<^verbatim>\<open>celltype.field(shape=self.shape[:2]).to_torch(device=...)\<close> returns: a dictionary
  from channel name to a tensor, or to a dictionary again for a struct-typed channel. It
  is computed by the tensor library from the registered element types and is a parameter
  (\<open>tensor_dict\<close>) of the allocation here.
\<close>

datatype 'a chdata = Tensor "'a tensor" | Dict "(string \<times> 'a chdata) list"

text \<open>\<^verbatim>\<open>check_ch_shape\<close>, the same in both modules; \<open>wshape\<close> is \<^verbatim>\<open>self.shape\<close>.\<close>

definition check_ch_shape :: "nat list \<Rightarrow> nat list \<Rightarrow> error + nat" where
  "check_ch_shape wshape shp =
     (let lshape = length shp in
      if lshape > 3 \<or> lshape < 2 then Inl InvalidShape
      else if take 2 shp \<noteq> take 2 wshape then Inl PrefixMismatch
      else if lshape = 2 then Inr 1
      else Inr (shp ! 2))"

text \<open>
  \<^verbatim>\<open>World._index_subchannels\<close>: the loop over \<^verbatim>\<open>subchdict.items()\<close>, with \<open>end_ind\<close> and
  \<open>subch_tree\<close> as they stand before the iteration.
\<close>

fun World_index_subchannels_loop ::
  "nat list \<Rightarrow> (string \<times> 'a chdata) list \<Rightarrow> nat \<Rightarrow> (string \<times> leaf) list
     \<Rightarrow> error + ((string \<times> leaf) list \<times> nat)" where
  "World_index_subchannels_loop wshape [] end_ind subch_tree = Inr (subch_tree, end_ind)"
| "World_index_subchannels_loop wshape ((subchid, subch) # rest) end_ind subch_tree =
     (case subch of
        Dict d \<Rightarrow> Inl GroupingDepth
      | Tensor t \<Rightarrow>
          (case check_ch_shape wshape (tshape t) of
             Inl e \<Rightarrow> Inl e
           | Inr subch_depth \<Rightarrow>
               (let inds = [end_ind..<end_ind + subch_depth] in
                World_index_subchannels_loop wshape rest (end_ind + subch_depth)
                  (AList.update subchid \<lparr>indices = inds, indices_ti = Some inds\<rparr> subch_tree))))"

definition World_index_subchannels ::
  "nat list \<Rightarrow> (string \<times> 'a chdata) list \<Rightarrow> nat \<Rightarrow> error + ((string \<times> leaf) list \<times> nat)" where
  "World_index_subchannels wshape subchdict start_ind =
     (case World_index_subchannels_loop wshape subchdict start_ind [] of
        Inl e \<Rightarrow> Inl e
      | Inr (subch_tree, end_ind) \<Rightarrow> Inr (subch_tree, end_ind - start_ind))"

text \<open>
  The loop over \<^verbatim>\<open>tensor_dict.items()\<close> in \<^verbatim>\<open>World.malloc\<close>, with \<open>endlayer_pointer\<close> and
  \<open>index_tree\<close> as they stand before the iteration.
\<close>

fun World_index_channels_loop ::
  "nat list \<Rightarrow> (string \<times> 'a chdata) list \<Rightarrow> nat \<Rightarrow> (string \<times> node) list
     \<Rightarrow> error + ((string \<times> node) list \<times> nat)" where
  "World_index_channels_loop wshape [] endlayer_pointer index_tree =
     Inr (index_tree, endlayer_pointer)"
| "World_index_channels_loop wshape ((chid, chdata) # rest) endlayer_pointer index_tree =
     (case chdata of
        Tensor t \<Rightarrow>
          (case check_ch_shape wshape (tshape t) of
             Inl e \<Rightarrow> Inl e
           | Inr ch_depth \<Rightarrow>
               (let inds = [endlayer_pointer..<endlayer_pointer + ch_depth] in
                World_index_channels_loop wshape rest (endlayer_pointer + ch_depth)
                  (AList.update chid
                     \<lparr>indices = inds, indices_ti = Some inds, subchannels = None\<rparr> index_tree)))
      | Dict d \<Rightarrow>
          (case World_index_subchannels wshape d endlayer_pointer of
             Inl e \<Rightarrow> Inl e
           | Inr (subch_tree, total_depth) \<Rightarrow>
               (let inds = [endlayer_pointer..<endlayer_pointer + total_depth] in
                World_index_channels_loop wshape rest (endlayer_pointer + total_depth)
                  (AList.update chid
                     \<lparr>indices = inds, indices_ti = Some inds, subchannels = Some subch_tree\<rparr>
                     index_tree))))"


section \<open>Channel descriptors and the registry\<close>

text \<open>
  \<^verbatim>\<open>Channel.link_to_mem\<close> stores the buffer and the indices; a single index is stored as
  a scalar.
\<close>

datatype link = Scalar nat | Array "nat list"

text \<open>
  A \<^verbatim>\<open>Channel\<close> object. \<open>ch_indices\<close> is \<open>None\<close> until \<^verbatim>\<open>link_to_mem\<close> has run; the
  \<^verbatim>\<open>memblock\<close> it stores with the indices is the buffer of the owning world. The sources
  keep the sub-channel objects and the list \<^verbatim>\<open>'subchids'\<close> in the same dictionary as the
  caller's metadata; here they are fields of their own, and \<open>ch_metadata\<close> holds the
  entries a caller can supply together with the three that \<^verbatim>\<open>__init__\<close> writes.
\<close>

datatype channel = Channel
  (ch_id: string)
  (ch_ti_dtype: pyval)
  (ch_lims: pyval)
  (ch_indices: "link option")
  (ch_metadata: "(string \<times> pyval) list")
  (ch_subchids: "string list")
  (ch_subchannels: "(string \<times> channel) list")

text \<open>\<^verbatim>\<open>d.update(kvs)\<close> on dictionaries.\<close>

definition dict_update :: "(string \<times> 'v) list \<Rightarrow> (string \<times> 'v) list \<Rightarrow> (string \<times> 'v) list" where
  "dict_update d kvs = fold (\<lambda>kv. AList.update (fst kv) (snd kv)) kvs d"

text \<open>
  The body of \<^verbatim>\<open>Channel.__init__\<close>, after the arguments are bound (\<open>ident\<close> is the
  argument \<^verbatim>\<open>id\<close>). A \<^verbatim>\<open>metadata\<close>
  argument that is neither \<^verbatim>\<open>None\<close> nor a dictionary has no \<^verbatim>\<open>update\<close>.
\<close>

definition Channel_body ::
  "string \<Rightarrow> pyval \<Rightarrow> pyval \<Rightarrow> pyval \<Rightarrow> (string \<times> pyval) list \<Rightarrow> error + channel" where
  "Channel_body ident ti_dtype lims metadata kwargs =
     (let lims' = (if truthy lims then lims else PList [PInt (- 1), PInt 1]);
          field_md = [(''id'', PStr ident), (''ti_dtype'', ti_dtype), (''lims'', lims')]
      in case metadata of
           PNone \<Rightarrow> Inr (Channel ident ti_dtype lims' None
                           (dict_update (dict_update [] kwargs) field_md) [] [])
         | PDict md \<Rightarrow> Inr (Channel ident ti_dtype lims' None
                           (dict_update (dict_update md kwargs) field_md) [] [])
         | _ \<Rightarrow> Inl AttributeError)"

text \<open>
  The call \<^verbatim>\<open>Channel(id, self, ti_dtype=ti_dtype, **kwargs)\<close>: a keyword that names an
  argument already given is a \<^verbatim>\<open>TypeError\<close>; \<^verbatim>\<open>lims\<close> and \<^verbatim>\<open>metadata\<close> are taken from
  the keywords, the others are the constructor's own \<^verbatim>\<open>**kwargs\<close>.
\<close>

definition Channel_init :: "string \<Rightarrow> pyval \<Rightarrow> (string \<times> pyval) list \<Rightarrow> error + channel" where
  "Channel_init ident ti_dtype kws =
     (if \<exists>k \<in> set (map fst kws). k \<in> {''self'', ''id'', ''world'', ''ti_dtype''}
      then Inl TypeError
      else Channel_body ident ti_dtype
             (case map_of kws ''lims'' of None \<Rightarrow> PNone | Some v \<Rightarrow> v)
             (case map_of kws ''metadata'' of None \<Rightarrow> PNone | Some v \<Rightarrow> v)
             (filter (\<lambda>kv. fst kv \<noteq> ''lims'' \<and> fst kv \<noteq> ''metadata'') kws))"

fun link_to_mem :: "channel \<Rightarrow> nat list \<Rightarrow> channel" where
  "link_to_mem (Channel i t l ix md ids subs) inds =
     Channel i t l (Some (if length inds = 1 then Scalar (inds ! 0) else Array inds)) md ids subs"

text \<open>
  \<^verbatim>\<open>Channel.add_subchannel\<close>. The new object's back reference \<^verbatim>\<open>'parent'\<close> is the
  channel it is stored in.
\<close>

fun add_subchannel :: "channel \<Rightarrow> string \<Rightarrow> pyval \<Rightarrow> error + channel" where
  "add_subchannel (Channel i t l ix md ids subs) ident ti_dtype =
     (case Channel_init ident ti_dtype [] of
        Inl e \<Rightarrow> Inl e
      | Inr subch \<Rightarrow> Inr (Channel i t l ix md (ids @ [ident]) (AList.update ident subch subs)))"

text \<open>\<^verbatim>\<open>channel[subchid].link_to_mem(inds, mem)\<close> for a sub-channel just added.\<close>

fun link_subchannel :: "channel \<Rightarrow> string \<Rightarrow> nat list \<Rightarrow> error + channel" where
  "link_subchannel (Channel i t l ix md ids subs) subchid inds =
     (case map_of subs subchid of
        None \<Rightarrow> Inl AttributeError
      | Some subch \<Rightarrow>
          Inr (Channel i t l ix md ids (AList.update subchid (link_to_mem subch inds) subs)))"

section \<open>The index resolver \<^verbatim>\<open>World._windex\<close>\<close>

record windex =
  index_tree :: "(string \<times> node) list"
  does_return_ti :: bool

text \<open>
  A reference: a name, a pair of a name and a sub-name or a list of sub-names, or a list
  of references.
\<close>

datatype subkey = Sub string | SubList "string list"

datatype key = Name string | Tuple string subkey | KeyList "key list"

text \<open>
  What the resolver returns: a host sequence (a Python list or \<^verbatim>\<open>np.array\<close>) or a
  device field (\<^verbatim>\<open>indices_ti\<close>).
\<close>

datatype index_result = Host "nat list" | Ti "nat list"

text \<open>\<^verbatim>\<open>self.index_tree[chid]['subchannels'][subchid]\<close>.\<close>

definition sub_lookup :: "(string \<times> node) list \<Rightarrow> string \<Rightarrow> string \<Rightarrow> error + leaf" where
  "sub_lookup tree chid subchid =
     (case map_of tree chid of
        None \<Rightarrow> Inl (KeyError chid)
      | Some n \<Rightarrow>
          (case subchannels n of
             None \<Rightarrow> Inl (KeyError ''subchannels'')
           | Some st \<Rightarrow>
               (case map_of st subchid of
                  None \<Rightarrow> Inl (KeyError subchid)
                | Some l \<Rightarrow> Inr l)))"

text \<open>The loop \<^verbatim>\<open>for subchid_single in key_tuple[1]: inds += ...\<close>.\<close>

fun sub_list_inds :: "(string \<times> node) list \<Rightarrow> string \<Rightarrow> string list \<Rightarrow> nat list \<Rightarrow> error + nat list" where
  "sub_list_inds tree chid [] inds = Inr inds"
| "sub_list_inds tree chid (subchid_single # rest) inds =
     (case sub_lookup tree chid subchid_single of
        Inl e \<Rightarrow> Inl e
      | Inr l \<Rightarrow> sub_list_inds tree chid rest (inds @ indices l))"

definition get_tuple_inds :: "windex \<Rightarrow> string \<Rightarrow> subkey \<Rightarrow> error + index_result" where
  "get_tuple_inds wi chid subchid =
     (case subchid of
        SubList subchids \<Rightarrow>
          (if does_return_ti wi then Inl UnsupportedIndexMode
           else (case sub_list_inds (index_tree wi) chid subchids [] of
                   Inl e \<Rightarrow> Inl e
                 | Inr inds \<Rightarrow> Inr (Host inds)))
      | Sub s \<Rightarrow>
          (case sub_lookup (index_tree wi) chid s of
             Inl e \<Rightarrow> Inl e
           | Inr l \<Rightarrow>
               (if does_return_ti wi
                then (case indices_ti l of
                        None \<Rightarrow> Inl (KeyError ''indices_ti'')
                      | Some f \<Rightarrow> Inr (Ti f))
                else Inr (Host (indices l)))))"

text \<open>
  The loop \<^verbatim>\<open>for chid in key: inds += ...\<close> of \<^verbatim>\<open>_windex.__getitem__\<close>. An element that
  is a list cannot be a dictionary key; a device field cannot be added to a list.
\<close>

fun key_list_inds :: "windex \<Rightarrow> key list \<Rightarrow> nat list \<Rightarrow> error + nat list" where
  "key_list_inds wi [] inds = Inr inds"
| "key_list_inds wi (chid # rest) inds =
     (case chid of
        Tuple c sk \<Rightarrow>
          (case get_tuple_inds wi c sk of
             Inl e \<Rightarrow> Inl e
           | Inr (Host is) \<Rightarrow> key_list_inds wi rest (inds @ is)
           | Inr (Ti f) \<Rightarrow> Inl TypeError)
      | Name c \<Rightarrow>
          (case map_of (index_tree wi) c of
             None \<Rightarrow> Inl (KeyError c)
           | Some n \<Rightarrow> key_list_inds wi rest (inds @ indices n))
      | KeyList ks \<Rightarrow> Inl TypeError)"

definition windex_getitem :: "windex \<Rightarrow> key \<Rightarrow> error + index_result" where
  "windex_getitem wi k =
     (case k of
        Tuple c sk \<Rightarrow> get_tuple_inds wi c sk
      | KeyList ks \<Rightarrow>
          (if does_return_ti wi then Inl UnsupportedIndexMode
           else (case key_list_inds wi ks [] of
                   Inl e \<Rightarrow> Inl e
                 | Inr inds \<Rightarrow> Inr (Host inds)))
      | Name c \<Rightarrow>
          (case map_of (index_tree wi) c of
             None \<Rightarrow> Inl (KeyError c)
           | Some n \<Rightarrow>
               (if does_return_ti wi
                then (case indices_ti n of
                        None \<Rightarrow> Inl (KeyError ''indices_ti'')
                      | Some f \<Rightarrow> Inr (Ti f))
                else Inr (Host (indices n)))))"

text \<open>\<^verbatim>\<open>_windex.return_ti\<close>.\<close>

definition return_ti :: "bool \<Rightarrow> windex \<Rightarrow> windex" where
  "return_ti b wi = wi\<lparr>does_return_ti := b\<rparr>"


section \<open>The class \<^verbatim>\<open>World\<close>\<close>

record 'a world =
  w_shape :: "nat list"
  w_mem :: "'a tensor option"
  w_indices :: "windex option"
  w_channels :: "(string \<times> channel) list"

text \<open>
  A method returns its result, or the error it raised, together with the object as it
  is left behind.
\<close>

definition World_add_channel ::
  "string \<Rightarrow> pyval \<Rightarrow> (string \<times> pyval) list \<Rightarrow> 'a world \<Rightarrow> (error + unit) \<times> 'a world" where
  "World_add_channel ident ti_dtype kwargs w =
     (if w_mem w \<noteq> None then (Inl AlreadyAllocated, w)
      else (case Channel_init ident ti_dtype kwargs of
              Inl e \<Rightarrow> (Inl e, w)
            | Inr c \<Rightarrow> (Inr (), w\<lparr>w_channels := AList.update ident c (w_channels w)\<rparr>)))"

text \<open>
  The call \<^verbatim>\<open>self.add_channel(chid, **ch)\<close>: the keys of \<^verbatim>\<open>ch\<close> become keyword
  arguments. A key \<^verbatim>\<open>'self'\<close> or \<^verbatim>\<open>'id'\<close> names an argument that is already given; a
  key \<^verbatim>\<open>'ti_dtype'\<close> gives the element type, whose default is \<^verbatim>\<open>ti.f32\<close>.
\<close>

definition add_channel_kw ::
  "(string \<Rightarrow> pyval \<Rightarrow> (string \<times> pyval) list \<Rightarrow> 's \<Rightarrow> (error + unit) \<times> 's)
     \<Rightarrow> string \<Rightarrow> (string \<times> pyval) list \<Rightarrow> 's \<Rightarrow> (error + unit) \<times> 's" where
  "add_channel_kw add_channel chid ch s =
     (if \<exists>k \<in> set (map fst ch). k \<in> {''self'', ''id''} then (Inl TypeError, s)
      else add_channel chid
             (case map_of ch ''ti_dtype'' of None \<Rightarrow> PType F32 | Some v \<Rightarrow> v)
             (filter (\<lambda>kv. fst kv \<noteq> ''ti_dtype'') ch) s)"

text \<open>The loop \<^verbatim>\<open>for chid in channels.keys()\<close> of \<^verbatim>\<open>World.add_channels\<close>.\<close>

fun World_add_channels_loop :: "(string \<times> pyval) list \<Rightarrow> 'a world \<Rightarrow> (error + unit) \<times> 'a world" where
  "World_add_channels_loop [] w = (Inr (), w)"
| "World_add_channels_loop ((chid, ch) # rest) w =
     (case (case ch of
              PDict d \<Rightarrow> add_channel_kw World_add_channel chid d w
            | _ \<Rightarrow> World_add_channel chid ch [] w) of
        (Inl e, w') \<Rightarrow> (Inl e, w')
      | (Inr u, w') \<Rightarrow> World_add_channels_loop rest w')"

definition World_add_channels :: "(string \<times> pyval) list \<Rightarrow> 'a world \<Rightarrow> (error + unit) \<times> 'a world" where
  "World_add_channels chans w =
     (if w_mem w \<noteq> None then (Inl AlreadyAllocated, w)
      else World_add_channels_loop chans w)"

text \<open>\<^verbatim>\<open>World.__init__\<close>: \<^verbatim>\<open>self.shape = (*shape, 0)\<close>.\<close>

definition World_init :: "nat list \<Rightarrow> (string \<times> pyval) list option \<Rightarrow> (error + unit) \<times> 'a world" where
  "World_init shp chans =
     (let w = \<lparr>w_shape = shp @ [0], w_mem = None, w_indices = None, w_channels = []\<rparr>
      in case chans of None \<Rightarrow> (Inr (), w) | Some cs \<Rightarrow> World_add_channels cs w)"

text \<open>
  \<^verbatim>\<open>_transfer_to_mem\<close>, the same text in both modules. The inner loop runs over the
  sub-channels of one group; the channel objects are changed in place, so the dictionary
  of channels is returned as it stands also when an error is raised.
\<close>

fun transfer_subchannels ::
  "string \<Rightarrow> (string \<times> 'a chdata) list \<Rightarrow> (string \<times> leaf) list \<Rightarrow> 'a tensor
     \<Rightarrow> (string \<times> channel) list \<Rightarrow> (error + 'a tensor) \<times> (string \<times> channel) list" where
  "transfer_subchannels chid tensor_dict [] mem channel_dict = (Inr mem, channel_dict)"
| "transfer_subchannels chid tensor_dict ((subchid, subchtree) # rest) mem channel_dict =
     (case map_of tensor_dict chid of
        None \<Rightarrow> (Inl (KeyError chid), channel_dict)
      | Some (Tensor t0) \<Rightarrow> (Inl IndexError, channel_dict)
      | Some (Dict d) \<Rightarrow>
          (case map_of d subchid of
             None \<Rightarrow> (Inl (KeyError subchid), channel_dict)
           | Some (Dict dd) \<Rightarrow> (Inl AttributeError, channel_dict)
           | Some (Tensor t) \<Rightarrow>
               (case assign_depth mem (indices subchtree)
                       (if length (tshape t) = 2 then unsqueeze2 t else t) of
                  Inl e \<Rightarrow> (Inl e, channel_dict)
                | Inr mem' \<Rightarrow>
                    (case map_of channel_dict chid of
                       None \<Rightarrow> (Inl (KeyError chid), channel_dict)
                     | Some c \<Rightarrow>
                         (case add_subchannel c subchid (ch_ti_dtype c) of
                            Inl e \<Rightarrow> (Inl e, channel_dict)
                          | Inr c1 \<Rightarrow>
                              (case link_subchannel c1 subchid (indices subchtree) of
                                 Inl e \<Rightarrow> (Inl e, AList.update chid c1 channel_dict)
                               | Inr c2 \<Rightarrow>
                                   transfer_subchannels chid tensor_dict rest mem'
                                     (AList.update chid c2 channel_dict)))))))"

fun transfer_to_mem ::
  "'a tensor \<Rightarrow> (string \<times> 'a chdata) list \<Rightarrow> (string \<times> node) list
     \<Rightarrow> (string \<times> channel) list \<Rightarrow> (error + 'a tensor) \<times> (string \<times> channel) list" where
  "transfer_to_mem mem tensor_dict [] channel_dict = (Inr mem, channel_dict)"
| "transfer_to_mem mem tensor_dict ((chid, chindices) # rest) channel_dict =
     (case subchannels chindices of
        Some subch_tree \<Rightarrow>
          (case transfer_subchannels chid tensor_dict subch_tree mem channel_dict of
             (Inl e, channel_dict') \<Rightarrow> (Inl e, channel_dict')
           | (Inr mem', channel_dict') \<Rightarrow>
               (case map_of channel_dict' chid of
                  None \<Rightarrow> (Inl (KeyError chid), channel_dict')
                | Some c \<Rightarrow>
                    transfer_to_mem mem' tensor_dict rest
                      (AList.update chid (link_to_mem c (indices chindices)) channel_dict')))
      | None \<Rightarrow>
          (case map_of tensor_dict chid of
             None \<Rightarrow> (Inl (KeyError chid), channel_dict)
           | Some (Dict d) \<Rightarrow> (Inl AttributeError, channel_dict)
           | Some (Tensor t) \<Rightarrow>
               (case assign_depth mem (indices chindices)
                       (if length (tshape t) = 2 then unsqueeze2 t else t) of
                  Inl e \<Rightarrow> (Inl e, channel_dict)
                | Inr mem' \<Rightarrow>
                    (case map_of channel_dict chid of
                       None \<Rightarrow> (Inl (KeyError chid), channel_dict)
                     | Some c \<Rightarrow>
                         transfer_to_mem mem' tensor_dict rest
                           (AList.update chid (link_to_mem c (indices chindices)) channel_dict)))))"

text \<open>
  \<^verbatim>\<open>World.malloc\<close>. \<open>g\<close> is the content of the uninitialised buffer and \<open>tensor_dict\<close>
  the dictionary of tensors of the registered channels (see \<open>chdata\<close>).
  \<^verbatim>\<open>self.shape[2]\<close> is the first slot to assign; it does not exist when the shape given
  to the constructor had fewer than two components.
\<close>

definition World_malloc ::
  "(nat \<Rightarrow> nat \<Rightarrow> nat \<Rightarrow> 'a) \<Rightarrow> (string \<times> 'a chdata) list \<Rightarrow> 'a world \<Rightarrow> (error + unit) \<times> 'a world" where
  "World_malloc g tensor_dict w =
     (if w_mem w \<noteq> None then (Inl AlreadyAllocated, w)
      else if length (w_shape w) \<le> 2 then (Inl IndexError, w)
      else (case World_index_channels_loop (w_shape w) tensor_dict (w_shape w ! 2) [] of
              Inl e \<Rightarrow> (Inl e, w)
            | Inr (tree, endlayer_pointer) \<Rightarrow>
                (case transfer_to_mem
                        (torch_empty g (w_shape w ! 0) (w_shape w ! 1) endlayer_pointer)
                        tensor_dict tree (w_channels w) of
                   (Inl e, channel_dict) \<Rightarrow> (Inl e, w\<lparr>w_channels := channel_dict\<rparr>)
                 | (Inr mem, channel_dict) \<Rightarrow>
                     (Inr (), w\<lparr>w_mem := Some mem, w_channels := channel_dict,
                                w_indices := Some \<lparr>index_tree = tree, does_return_ti = False\<rparr>\<rparr>))))"

text \<open>
  \<^verbatim>\<open>World.__getitem__\<close>. The flag of the resolver is saved, cleared, and set back after
  the slice is taken; an error raised in between leaves it cleared.
\<close>

definition World_getitem :: "key \<Rightarrow> 'a world \<Rightarrow> (error + 'a tensor) \<times> 'a world" where
  "World_getitem k w =
     (case w_mem w of
        None \<Rightarrow> (Inl NotAllocated, w)
      | Some mem \<Rightarrow>
          (case w_indices w of
             None \<Rightarrow> (Inl AttributeError, w)
           | Some wi \<Rightarrow>
               (let indices_return_ti = does_return_ti wi;
                    wi0 = return_ti False wi
                in case windex_getitem wi0 k of
                     Inl e \<Rightarrow> (Inl e, w\<lparr>w_indices := Some wi0\<rparr>)
                   | Inr (Ti f) \<Rightarrow> (Inl TypeError, w\<lparr>w_indices := Some wi0\<rparr>)
                   | Inr (Host inds) \<Rightarrow>
                       (case index_depth mem inds of
                          Inl e \<Rightarrow> (Inl e, w\<lparr>w_indices := Some wi0\<rparr>)
                        | Inr val \<Rightarrow>
                            (Inr val, w\<lparr>w_indices := Some (return_ti indices_return_ti wi0)\<rparr>)))))"

text \<open>
  \<^verbatim>\<open>World.__setitem__\<close>. With more than one index, \<^verbatim>\<open>self.mem[:, :, indices]\<close> is taken
  with an index array and so is a new tensor, not a view of the buffer: \<^verbatim>\<open>copy_\<close> fills
  that new tensor and the buffer stays as it was. With one index, \<^verbatim>\<open>self.mem[:, :, indices[0]]\<close>
  is a view, and \<^verbatim>\<open>copy_\<close> writes the slice of the buffer.
\<close>

definition World_setitem :: "key \<Rightarrow> 'a tensor \<Rightarrow> 'a world \<Rightarrow> (error + unit) \<times> 'a world" where
  "World_setitem k val w =
     (case w_mem w of
        None \<Rightarrow> (Inl NotAllocated, w)
      | Some mem \<Rightarrow>
          (case w_indices w of
             None \<Rightarrow> (Inl AttributeError, w)
           | Some wi \<Rightarrow>
               (let indices_return_ti = does_return_ti wi;
                    wi0 = return_ti False wi
                in case windex_getitem wi0 k of
                     Inl e \<Rightarrow> (Inl e, w\<lparr>w_indices := Some wi0\<rparr>)
                   | Inr (Ti f) \<Rightarrow> (Inl TypeError, w\<lparr>w_indices := Some wi0\<rparr>)
                   | Inr (Host inds) \<Rightarrow>
                       (let w1 = w\<lparr>w_indices := Some (return_ti indices_return_ti wi0)\<rparr> in
                        if length inds > 1 then
                          (case World_getitem k w1 of
                             (Inl e, w2) \<Rightarrow> (Inl e, w2)
                           | (Inr cur, w2) \<Rightarrow>
                               (if tshape val \<noteq> tshape cur then (Inl ShapeMismatch, w2)
                                else (case index_depth mem inds of
                                        Inl e \<Rightarrow> (Inl e, w2)
                                      | Inr tmp \<Rightarrow> (Inr (), w2))))
                        else if length inds = 1 then
                          (let val' = (if length (tshape val) = 3 then squeeze2 val else val) in
                           if tshape val' \<noteq> take 2 (w_shape w) then (Inl ShapeMismatch, w1)
                           else if \<not> inds ! 0 < length (planes mem) then (Inl IndexError, w1)
                           else (case planes val' of
                                   [p] \<Rightarrow> (Inr (), w1\<lparr>w_mem :=
                                              Some (mem\<lparr>planes := (planes mem)[inds ! 0 := p]\<rparr>)\<rparr>)
                                 | _ \<Rightarrow> (Inl RuntimeError, w1)))
                        else (Inr (), w1)))))"


section \<open>The class \<^verbatim>\<open>Substrate\<close>\<close>

text \<open>
  \<^verbatim>\<open>substrate.py\<close> imports three classes that are not among the sources:
  \<^verbatim>\<open>Channel\<close>, \<^verbatim>\<open>SubstrateIndex\<close> and \<^verbatim>\<open>TaichiStructFactory\<close>. The module calls the
  constructor and the methods of \<^verbatim>\<open>Channel\<close> exactly as \<^verbatim>\<open>world.py\<close> calls those of
  its own class, and the class of \<^verbatim>\<open>world.py\<close> stands for it. Of the two factories the
  state keeps the calls made on them, in order. The resolver is the index tree it is
  built from; what its \<^verbatim>\<open>__getitem__\<close> returns is a parameter \<open>resolve\<close> of the methods
  that call it.
\<close>

record 'a substrate =
  s_w :: nat
  s_h :: nat
  s_shape :: "nat list"
  s_mem :: "'a tensor option"
  s_windex :: "(string \<times> node) list option"
  s_channels :: "(string \<times> channel) list"
  s_ti_ind_builder :: "(string \<times> link) list"
  s_ti_lims_builder :: "(string \<times> pyval) list"

definition Substrate_add_channel ::
  "string \<Rightarrow> pyval \<Rightarrow> (string \<times> pyval) list \<Rightarrow> 'a substrate \<Rightarrow> (error + unit) \<times> 'a substrate" where
  "Substrate_add_channel chid ti_dtype kwargs s =
     (if s_mem s \<noteq> None then (Inl AlreadyAllocated, s)
      else (case Channel_init chid ti_dtype kwargs of
              Inl e \<Rightarrow> (Inl e, s)
            | Inr c \<Rightarrow> (Inr (), s\<lparr>s_channels := AList.update chid c (s_channels s)\<rparr>)))"

text \<open>
  The call \<^verbatim>\<open>self.add_channel(chid, **ch)\<close> of \<^verbatim>\<open>Substrate\<close>, whose first argument is
  named \<^verbatim>\<open>chid\<close>.
\<close>

definition Substrate_add_channel_kw ::
  "string \<Rightarrow> (string \<times> pyval) list \<Rightarrow> 'a substrate \<Rightarrow> (error + unit) \<times> 'a substrate" where
  "Substrate_add_channel_kw chid ch s =
     (if \<exists>k \<in> set (map fst ch). k \<in> {''self'', ''chid''} then (Inl TypeError, s)
      else Substrate_add_channel chid
             (case map_of ch ''ti_dtype'' of None \<Rightarrow> PType F32 | Some v \<Rightarrow> v)
             (filter (\<lambda>kv. fst kv \<noteq> ''ti_dtype'') ch) s)"

fun Substrate_add_channels_loop ::
  "(string \<times> pyval) list \<Rightarrow> 'a substrate \<Rightarrow> (error + unit) \<times> 'a substrate" where
  "Substrate_add_channels_loop [] s = (Inr (), s)"
| "Substrate_add_channels_loop ((chid, ch) # rest) s =
     (case (case ch of
              PDict d \<Rightarrow> Substrate_add_channel_kw chid d s
            | _ \<Rightarrow> Substrate_add_channel chid ch [] s) of
        (Inl e, s') \<Rightarrow> (Inl e, s')
      | (Inr u, s') \<Rightarrow> Substrate_add_channels_loop rest s')"

definition Substrate_add_channels ::
  "(string \<times> pyval) list \<Rightarrow> 'a substrate \<Rightarrow> (error + unit) \<times> 'a substrate" where
  "Substrate_add_channels chans s =
     (if s_mem s \<noteq> None then (Inl AlreadyAllocated, s)
      else Substrate_add_channels_loop chans s)"

text \<open>\<^verbatim>\<open>Substrate.add_ti_inds\<close>: \<^verbatim>\<open>add_i\<close> for one index, \<^verbatim>\<open>add_nparr_int\<close> otherwise.\<close>

definition add_ti_inds :: "string \<Rightarrow> nat list \<Rightarrow> 'a substrate \<Rightarrow> 'a substrate" where
  "add_ti_inds k inds s =
     s\<lparr>s_ti_ind_builder := s_ti_ind_builder s @
          [(k, if length inds = 1 then Scalar (inds ! 0) else Array inds)]\<rparr>"

text \<open>
  \<^verbatim>\<open>self.ti_lims_builder.add_nparr_float(key, self.channels[chid].lims)\<close>; the channel
  must be registered.
\<close>

definition add_lims :: "string \<Rightarrow> string \<Rightarrow> 'a substrate \<Rightarrow> error + 'a substrate" where
  "add_lims k chid s =
     (case map_of (s_channels s) chid of
        None \<Rightarrow> Inl (KeyError chid)
      | Some c \<Rightarrow> Inr (s\<lparr>s_ti_lims_builder := s_ti_lims_builder s @ [(k, ch_lims c)]\<rparr>))"

text \<open>\<^verbatim>\<open>Substrate._index_subchannels\<close>: the loop, which also feeds the two factories.\<close>

fun Substrate_index_subchannels_loop ::
  "string \<Rightarrow> (string \<times> 'a chdata) list \<Rightarrow> nat \<Rightarrow> (string \<times> leaf) list \<Rightarrow> 'a substrate
     \<Rightarrow> (error + ((string \<times> leaf) list \<times> nat)) \<times> 'a substrate" where
  "Substrate_index_subchannels_loop parent_chid [] end_index subch_tree s =
     (Inr (subch_tree, end_index), s)"
| "Substrate_index_subchannels_loop parent_chid ((subchid, subch) # rest) end_index subch_tree s =
     (case subch of
        Dict d \<Rightarrow> (Inl GroupingDepth, s)
      | Tensor t \<Rightarrow>
          (case check_ch_shape (s_shape s) (tshape t) of
             Inl e \<Rightarrow> (Inl e, s)
           | Inr subch_depth \<Rightarrow>
               (let inds = [end_index..<end_index + subch_depth];
                    s1 = add_ti_inds (parent_chid @ ''_'' @ subchid) inds s
                in case add_lims (parent_chid @ ''_'' @ subchid) parent_chid s1 of
                     Inl e \<Rightarrow> (Inl e, s1)
                   | Inr s2 \<Rightarrow>
                       Substrate_index_subchannels_loop parent_chid rest (end_index + subch_depth)
                         (AList.update subchid \<lparr>indices = inds, indices_ti = None\<rparr> subch_tree)
                         s2)))"

definition Substrate_index_subchannels ::
  "(string \<times> 'a chdata) list \<Rightarrow> nat \<Rightarrow> string \<Rightarrow> 'a substrate
     \<Rightarrow> (error + ((string \<times> leaf) list \<times> nat)) \<times> 'a substrate" where
  "Substrate_index_subchannels subchdict start_index parent_chid s =
     (case Substrate_index_subchannels_loop parent_chid subchdict start_index [] s of
        (Inl e, s') \<Rightarrow> (Inl e, s')
      | (Inr (subch_tree, end_index), s') \<Rightarrow> (Inr (subch_tree, end_index - start_index), s'))"

text \<open>The loop over \<^verbatim>\<open>tensor_dict.items()\<close> in \<^verbatim>\<open>Substrate.malloc\<close>.\<close>

fun Substrate_index_channels_loop ::
  "(string \<times> 'a chdata) list \<Rightarrow> nat \<Rightarrow> (string \<times> node) list \<Rightarrow> 'a substrate
     \<Rightarrow> (error + ((string \<times> node) list \<times> nat)) \<times> 'a substrate" where
  "Substrate_index_channels_loop [] endlayer_pointer tree s = (Inr (tree, endlayer_pointer), s)"
| "Substrate_index_channels_loop ((chid, chdata) # rest) endlayer_pointer tree s =
     (case chdata of
        Tensor t \<Rightarrow>
          (case check_ch_shape (s_shape s) (tshape t) of
             Inl e \<Rightarrow> (Inl e, s)
           | Inr ch_depth \<Rightarrow>
               (let inds = [endlayer_pointer..<endlayer_pointer + ch_depth];
                    s1 = add_ti_inds chid inds s
                in case add_lims chid chid s1 of
                     Inl e \<Rightarrow> (Inl e, s1)
                   | Inr s2 \<Rightarrow>
                       Substrate_index_channels_loop rest (endlayer_pointer + ch_depth)
                         (AList.update chid
                            \<lparr>indices = inds, indices_ti = None, subchannels = None\<rparr> tree)
                         s2))
      | Dict d \<Rightarrow>
          (case Substrate_index_subchannels d endlayer_pointer chid s of
             (Inl e, s0) \<Rightarrow> (Inl e, s0)
           | (Inr (subch_tree, total_depth), s0) \<Rightarrow>
               (let inds = [endlayer_pointer..<endlayer_pointer + total_depth];
                    s1 = add_ti_inds chid inds s0
                in case add_lims chid chid s1 of
                     Inl e \<Rightarrow> (Inl e, s1)
                   | Inr s2 \<Rightarrow>
                       Substrate_index_channels_loop rest (endlayer_pointer + total_depth)
                         (AList.update chid
                            \<lparr>indices = inds, indices_ti = None, subchannels = Some subch_tree\<rparr>
                            tree)
                         s2)))"

text \<open>\<^verbatim>\<open>mem.permute(2, 0, 1).unsqueeze(0).contiguous()\<close>: the same slices, shape \<open>(1, D, W, H)\<close>.\<close>

definition permute_unsqueeze :: "'a tensor \<Rightarrow> 'a tensor" where
  "permute_unsqueeze t = t\<lparr>tshape := [1, tshape t ! 2, tshape t ! 0, tshape t ! 1]\<rparr>"

text \<open>\<^verbatim>\<open>Substrate.malloc\<close>; \<open>tensor_dict\<close> as for \<open>World_malloc\<close>.\<close>

definition Substrate_malloc ::
  "(string \<times> ('a::zero) chdata) list \<Rightarrow> 'a substrate \<Rightarrow> (error + unit) \<times> 'a substrate" where
  "Substrate_malloc tensor_dict s =
     (if s_mem s \<noteq> None then (Inl AlreadyAllocated, s)
      else if length (s_shape s) \<le> 2 then (Inl IndexError, s)
      else (case Substrate_index_channels_loop tensor_dict (s_shape s ! 2) [] s of
              (Inl e, s1) \<Rightarrow> (Inl e, s1)
            | (Inr (tree, endlayer_pointer), s1) \<Rightarrow>
                (let s2 = s1\<lparr>s_shape := take 2 (s_shape s1) @ [endlayer_pointer]\<rparr> in
                 case transfer_to_mem
                        (torch_zeros (s_shape s2 ! 0) (s_shape s2 ! 1) (s_shape s2 ! 2))
                        tensor_dict tree (s_channels s2) of
                   (Inl e, channel_dict) \<Rightarrow> (Inl e, s2\<lparr>s_channels := channel_dict\<rparr>)
                 | (Inr mem, channel_dict) \<Rightarrow>
                     (Inr (), s2\<lparr>s_mem := Some (permute_unsqueeze mem),
                                 s_channels := channel_dict,
                                 s_windex := Some tree,
                                 s_shape := tshape (permute_unsqueeze mem)\<rparr>))))"


text \<open>\<^verbatim>\<open>Substrate.__setitem__\<close>: not implemented.\<close>

definition Substrate_setitem :: "key \<Rightarrow> 'a tensor \<Rightarrow> 'a substrate \<Rightarrow> (error + unit) \<times> 'a substrate" where
  "Substrate_setitem k val s =
     (if s_mem s = None then (Inl NotAllocated, s) else (Inl NotImplementedError, s))"

text \<open>
  \<^verbatim>\<open>Substrate.get_inds_tivec\<close>: the indices the resolver returns, as a device vector of
  their number.
\<close>

definition get_inds_tivec ::
  "((string \<times> node) list \<Rightarrow> key \<Rightarrow> error + nat list) \<Rightarrow> key \<Rightarrow> 'a substrate \<Rightarrow> error + index_result" where
  "get_inds_tivec resolve k s =
     (case s_windex s of
        None \<Rightarrow> Inl TypeError
      | Some tree \<Rightarrow>
          (case resolve tree k of
             Inl e \<Rightarrow> Inl e
           | Inr inds \<Rightarrow> Inr (Ti inds)))"

section \<open>Properties of a layout\<close>

text \<open>
  The per-cell depth of a channel: the trailing dimension of a tensor with three axes,
  1 for a tensor with two, and for a group the sum over its sub-channels.
\<close>

fun chdata_depth :: "'a chdata \<Rightarrow> nat" where
  "chdata_depth (Tensor t) = depth_of (tshape t)"
| "chdata_depth (Dict d) = sum_list (map (\<lambda>kv. chdata_depth (snd kv)) d)"

text \<open>
  \<open>tensor_dict\<close> and the dictionaries in it are Python dictionaries: no key occurs twice.
\<close>

definition well_keyed :: "(string \<times> 'a chdata) list \<Rightarrow> bool" where
  "well_keyed td \<longleftrightarrow>
     distinct (map fst td) \<and>
     (\<forall>kv \<in> set td. case snd kv of Tensor t \<Rightarrow> True | Dict d \<Rightarrow> distinct (map fst d))"

text \<open>The index ranges of the entries of a tree (or of a sub-tree), in order.\<close>

definition ranges :: "(string \<times> 'z leaf_scheme) list \<Rightarrow> nat list list" where
  "ranges tree = map (\<lambda>kv. indices (snd kv)) tree"

text \<open>A contiguous run of slot indices: empty, or \<open>s, s + 1, \<dots>\<close> from its first element.\<close>

definition contiguous :: "nat list \<Rightarrow> bool" where
  "contiguous xs \<longleftrightarrow> xs = [] \<or> xs = [hd xs..<hd xs + length xs]"

definition pairwise_disjoint :: "nat list list \<Rightarrow> bool" where
  "pairwise_disjoint rs \<longleftrightarrow>
     (\<forall>i \<in> {0..<length rs}. \<forall>j \<in> {0..<length rs}. i \<noteq> j \<longrightarrow> set (rs ! i) \<inter> set (rs ! j) = {})"

text \<open>
  What the entry of one channel must be: for a tensor, no sub-tree and as many indices
  as the tensor is deep; for a group, a sub-tree with the sub-channels' names in their
  order, each with a contiguous run as long as the sub-channel is deep, the runs
  pairwise disjoint and, one after the other, the run of the group itself.
\<close>

fun sub_ok :: "node \<Rightarrow> 'a chdata \<Rightarrow> bool" where
  "sub_ok n (Tensor t) \<longleftrightarrow> subchannels n = None \<and> length (indices n) = depth_of (tshape t)"
| "sub_ok n (Dict d) \<longleftrightarrow>
     (case subchannels n of
        None \<Rightarrow> False
      | Some st \<Rightarrow>
          map fst st = map fst d \<and>
          (\<forall>r \<in> set (ranges st). contiguous r) \<and>
          pairwise_disjoint (ranges st) \<and>
          concat (ranges st) = indices n \<and>
          map length (ranges st) = map (\<lambda>kv. chdata_depth (snd kv)) d)"

text \<open>
  The layout of \<open>tensor_dict\<close> from slot \<open>start\<close> to slot \<open>total_depth\<close>: the tree has the
  channels in registration order, every range is contiguous, the ranges are pairwise
  disjoint and one after the other are exactly \<open>start, \<dots>, total_depth - 1\<close>, the number
  of slots is the sum of the channels' depths, and every entry is as \<open>sub_ok\<close> says.
\<close>

definition layout_ok :: "nat \<Rightarrow> nat \<Rightarrow> (string \<times> 'a chdata) list \<Rightarrow> (string \<times> node) list \<Rightarrow> bool" where
  "layout_ok start total_depth td tree \<longleftrightarrow>
     map fst tree = map fst td \<and>
     (\<forall>r \<in> set (ranges tree). contiguous r) \<and>
     pairwise_disjoint (ranges tree) \<and>
     concat (ranges tree) = [start..<total_depth] \<and>
     start \<le> total_depth \<and>
     total_depth - start = sum_list (map (\<lambda>kv. chdata_depth (snd kv)) td) \<and>
     list_all2 (\<lambda>e kv. sub_ok (snd e) (snd kv)) tree td"

text \<open>The device copy of every range holds the range itself.\<close>

definition ti_consistent :: "(string \<times> node) list \<Rightarrow> bool" where
  "ti_consistent tree \<longleftrightarrow>
     (\<forall>e \<in> set tree. indices_ti (snd e) = Some (indices (snd e)) \<and>
        (case subchannels (snd e) of
           None \<Rightarrow> True
         | Some st \<Rightarrow> \<forall>l \<in> set st. indices_ti (snd l) = Some (indices (snd l))))"

section \<open>References\<close>

text \<open>
  An element of a list reference that the resolver treats by itself: a name or a pair.
  (A list inside a list is used as a dictionary key and raises.)
\<close>

fun is_atom :: "key \<Rightarrow> bool" where
  "is_atom (Name c) = True"
| "is_atom (Tuple c sk) = True"
| "is_atom (KeyList ks) = False"

text \<open>The host sequence a resolution returned.\<close>

fun host_inds :: "error + index_result \<Rightarrow> nat list" where
  "host_inds (Inr (Host inds)) = inds"
| "host_inds r = []"

text \<open>
  Every range of the tree, and of its sub-trees, lies in the set \<open>S\<close> of slots.
\<close>

definition in_range :: "(string \<times> node) list \<Rightarrow> nat set \<Rightarrow> bool" where
  "in_range tree S \<longleftrightarrow>
     (\<forall>e \<in> set tree. set (indices (snd e)) \<subseteq> S \<and>
        (case subchannels (snd e) of
           None \<Rightarrow> True
         | Some st \<Rightarrow> \<forall>l \<in> set st. set (indices (snd l)) \<subseteq> S))"

text \<open>
  A world that has been allocated with the index tree \<open>tree\<close> and a buffer of \<open>D\<close> slices.
\<close>

definition allocated :: "(string \<times> node) list \<Rightarrow> nat \<Rightarrow> nat list \<Rightarrow> 'a world \<Rightarrow> bool" where
  "allocated tree D ws w \<longleftrightarrow>
     w_shape w = ws \<and>
     (case w_mem w of
        None \<Rightarrow> False
      | Some mem \<Rightarrow> tshape mem = [ws ! 0, ws ! 1, D] \<and> length (planes mem) = D) \<and>
     (case w_indices w of None \<Rightarrow> False | Some wi \<Rightarrow> index_tree wi = tree)"




section \<open>Zero data\<close>

text \<open>
  A tensor of zeros over a grid of \<open>W\<close> by \<open>H\<close> cells, and a dictionary of such tensors: what
  a freshly created field of the tensor library converts to.
\<close>

definition zero_tensor :: "nat \<Rightarrow> nat \<Rightarrow> ('a::zero) tensor \<Rightarrow> bool" where
  "zero_tensor W H t \<longleftrightarrow> planes t = replicate (depth_of (tshape t)) (zero_plane W H)"

fun zero_data :: "nat \<Rightarrow> nat \<Rightarrow> ('a::zero) chdata \<Rightarrow> bool" where
  "zero_data W H (Tensor t) = zero_tensor W H t"
| "zero_data W H (Dict d) = (\<forall>kv \<in> set d. zero_data W H (snd kv))"

definition zero_dict :: "nat \<Rightarrow> nat \<Rightarrow> (string \<times> ('a::zero) chdata) list \<Rightarrow> bool" where
  "zero_dict W H td \<longleftrightarrow> (\<forall>kv \<in> set td. zero_data W H (snd kv))"

text \<open>
  The slots that \<^verbatim>\<open>_transfer_to_mem\<close> assigns: those of the sub-channels of a group, those
  of a channel that is not a group.
\<close>

definition covered :: "(string \<times> node) list \<Rightarrow> nat set" where
  "covered tree =
     (\<Union>e \<in> set tree.
        case subchannels (snd e) of
          None \<Rightarrow> set (indices (snd e))
        | Some st \<Rightarrow> (\<Union>l \<in> set st. set (indices (snd l))))"

section \<open>The 4 x 4 scenario\<close>

text \<open>
  A grid of 4 x 4 cells with channel \<^verbatim>\<open>a\<close> and the group \<^verbatim>\<open>b\<close> of \<^verbatim>\<open>x\<close> (two
  slots) and \<^verbatim>\<open>y\<close> (one slot): the declarations, the tensors of the fresh field, and the
  objects before allocation.
\<close>

definition ex_channels :: "(string \<times> pyval) list" where
  "ex_channels =
     [(''a'', PType F32),
      (''b'', PType (Struct [(''x'', Vector 2 F32), (''y'', Vector 1 F32)]))]"

definition ex_tensor_dict :: "(string \<times> int chdata) list" where
  "ex_tensor_dict =
     [(''a'', Tensor \<lparr>tshape = [4, 4], planes = [zero_plane 4 4]\<rparr>),
      (''b'', Dict [(''x'', Tensor (torch_zeros 4 4 2)), (''y'', Tensor (torch_zeros 4 4 1))])]"

definition ex_world :: "int world" where
  "ex_world = snd (World_init [4, 4] (Some ex_channels))"

definition ex_substrate :: "int substrate" where
  "ex_substrate =
     snd (Substrate_add_channels ex_channels
            \<lparr>s_w = 4, s_h = 4, s_shape = [4, 4, 0], s_mem = None, s_windex = None,
             s_channels = [], s_ti_ind_builder = [], s_ti_lims_builder = []\<rparr>)"

text \<open>The index tree of the scenario, with and without the device copies.\<close>

definition ex_tree :: "(string \<times> node) list" where
  "ex_tree =
     [(''a'', \<lparr>indices = [0], indices_ti = Some [0], subchannels = None\<rparr>),
      (''b'', \<lparr>indices = [1, 2, 3], indices_ti = Some [1, 2, 3],
               subchannels = Some [(''x'', \<lparr>indices = [1, 2], indices_ti = Some [1, 2]\<rparr>),
                                   (''y'', \<lparr>indices = [3], indices_ti = Some [3]\<rparr>)]\<rparr>)]"

definition ex_tree_host :: "(string \<times> node) list" where
  "ex_tree_host =
     [(''a'', \<lparr>indices = [0], indices_ti = None, subchannels = None\<rparr>),
      (''b'', \<lparr>indices = [1, 2, 3], indices_ti = None,
               subchannels = Some [(''x'', \<lparr>indices = [1, 2], indices_ti = None\<rparr>),
                                   (''y'', \<lparr>indices = [3], indices_ti = None\<rparr>)]\<rparr>)]"

text \<open>Tensors of ones of shape (4, 4, 1) and (4, 4, 2).\<close>

definition ex_ones1 :: "int tensor" where
  "ex_ones1 = \<lparr>tshape = [4, 4, 1], planes = [replicate 4 (replicate 4 1)]\<rparr>"

definition ex_ones2 :: "int tensor" where
  "ex_ones2 = \<lparr>tshape = [4, 4, 2], planes = replicate 2 (replicate 4 (replicate 4 1))\<rparr>"

section \<open>Sequences of calls\<close>

text \<open>
  The calls a client can make on a \<^verbatim>\<open>World\<close>, and the object as each call leaves it,
  whether the call returns or raises. \<^verbatim>\<open>Return_ti b\<close> is
  \<^verbatim>\<open>world.indices.return_ti(b)\<close>; before allocation \<^verbatim>\<open>world.indices\<close> is \<^verbatim>\<open>None\<close>
  and the call raises without effect.
\<close>

datatype 'a world_op =
    Add_channel string pyval "(string \<times> pyval) list"
  | Add_channels "(string \<times> pyval) list"
  | Malloc "nat \<Rightarrow> nat \<Rightarrow> nat \<Rightarrow> 'a" "(string \<times> 'a chdata) list"
  | Getitem key
  | Setitem key "'a tensor"
  | Return_ti bool

fun World_call :: "'a world_op \<Rightarrow> 'a world \<Rightarrow> 'a world" where
  "World_call (Add_channel ident ti_dtype kwargs) w = snd (World_add_channel ident ti_dtype kwargs w)"
| "World_call (Add_channels chans) w = snd (World_add_channels chans w)"
| "World_call (Malloc g tensor_dict) w = snd (World_malloc g tensor_dict w)"
| "World_call (Getitem k) w = snd (World_getitem k w)"
| "World_call (Setitem k val) w = snd (World_setitem k val w)"
| "World_call (Return_ti b) w = w\<lparr>w_indices := map_option (return_ti b) (w_indices w)\<rparr>"

definition World_calls :: "'a world_op list \<Rightarrow> 'a world \<Rightarrow> 'a world" where
  "World_calls ops w = fold World_call ops w"

text \<open>The same for a \<^verbatim>\<open>Substrate\<close>; its \<^verbatim>\<open>__getitem__\<close> has no effect on the object.\<close>

datatype 'a substrate_op =
    SAdd_channel string pyval "(string \<times> pyval) list"
  | SAdd_channels "(string \<times> pyval) list"
  | SMalloc "(string \<times> 'a chdata) list"
  | SSetitem key "'a tensor"

fun Substrate_call :: "('a::zero) substrate_op \<Rightarrow> 'a substrate \<Rightarrow> 'a substrate" where
  "Substrate_call (SAdd_channel chid ti_dtype kwargs) s = snd (Substrate_add_channel chid ti_dtype kwargs s)"
| "Substrate_call (SAdd_channels chans) s = snd (Substrate_add_channels chans s)"
| "Substrate_call (SMalloc tensor_dict) s = snd (Substrate_malloc tensor_dict s)"
| "Substrate_call (SSetitem k val) s = snd (Substrate_setitem k val s)"

definition Substrate_calls :: "('a::zero) substrate_op list \<Rightarrow> 'a substrate \<Rightarrow> 'a substrate" where
  "Substrate_calls ops s = fold Substrate_call ops s"

text \<open>
  The slots that the writes among \<open>ops\<close> name: the indices their references resolve to
  in host mode, in the index tree \<open>tree\<close>.
\<close>

fun touched :: "(string \<times> node) list \<Rightarrow> 'a world_op list \<Rightarrow> nat set" where
  "touched tree [] = {}"
| "touched tree (Setitem k val # ops) =
     set (host_inds (windex_getitem \<lparr>index_tree = tree, does_return_ti = False\<rparr> k))
       \<union> touched tree ops"
| "touched tree (other # ops) = touched tree ops"

section \<open>Evaluation of the scenario\<close>

lemma length_assign_planes [simp]: "length (assign_planes ps inds vs) = length ps"
  by (induction ps inds vs rule: assign_planes.induct) simp_all

lemma ex_world_eq: "w_shape ex_world = [4, 4, 0]" "w_mem ex_world = None"
  by (simp_all add: ex_world_def World_init_def World_add_channels_def ex_channels_def
        World_add_channel_def Channel_init_def Channel_body_def Let_def)

lemma ex_layout: "World_index_channels_loop [4, 4, 0] ex_tensor_dict 0 [] = Inr (ex_tree, 4)"
  by (simp add: ex_tensor_dict_def ex_tree_def check_ch_shape_def World_index_subchannels_def
        torch_zeros_def Let_def)

lemma ex_malloc:
  "fst (World_malloc g ex_tensor_dict ex_world) = Inr () \<and>
   map_option index_tree (w_indices (snd (World_malloc g ex_tensor_dict ex_world))) = Some ex_tree \<and>
   map_option tshape (w_mem (snd (World_malloc g ex_tensor_dict ex_world))) = Some [4, 4, 4]"
  apply (simp add: World_malloc_def ex_world_eq ex_layout)
  apply (simp add: ex_world_def World_init_def World_add_channels_def ex_channels_def
      World_add_channel_def Channel_init_def Channel_body_def Let_def ex_tensor_dict_def
      ex_tree_def torch_empty_def torch_zeros_def assign_depth_def unsqueeze2_def
      dict_update_def zero_plane_def)
  done

lemma ex_substrate_eq: "s_shape ex_substrate = [4, 4, 0]" "s_mem ex_substrate = None"
  by (simp_all add: ex_substrate_def Substrate_add_channels_def ex_channels_def
        Substrate_add_channel_def Channel_init_def Channel_body_def Let_def)

lemma ex_substrate_malloc:
  "fst (Substrate_malloc ex_tensor_dict ex_substrate) = Inr () \<and>
   s_windex (snd (Substrate_malloc ex_tensor_dict ex_substrate)) = Some ex_tree_host \<and>
   s_shape (snd (Substrate_malloc ex_tensor_dict ex_substrate)) = [1, 4, 4, 4] \<and>
   map_option tshape (s_mem (snd (Substrate_malloc ex_tensor_dict ex_substrate))) = Some [1, 4, 4, 4]"
  by code_simp

section \<open>The layout loops partition the slots\<close>

lemma ranges_simps [simp]:
  "ranges [] = []" "ranges ((k, l) # new) = indices l # ranges new"
  "ranges (xs @ ys) = ranges xs @ ranges ys"
  by (simp_all add: ranges_def)

lemma check_ch_shape_depth: "check_ch_shape ws shp = Inr d \<Longrightarrow> d = depth_of shp"
  by (auto simp: check_ch_shape_def depth_of_def Let_def split: if_splits)

lemma update_append: "k \<notin> fst ` set al \<Longrightarrow> AList.update k v al = al @ [(k, v)]"
  by (induction al) auto

lemma contiguous_upt: "contiguous [s..<s + d]"
  by (cases d) (simp_all add: contiguous_def upt_conv_Cons del: upt_Suc)

lemma upt_cat: "e \<le> m \<Longrightarrow> m \<le> e' \<Longrightarrow> [e..<m] @ [m..<e'] = [e..<(e'::nat)]"
  by (metis le_Suc_ex upt_add_eq_append)

lemma World_sub_loop:
  assumes "World_index_subchannels_loop ws sub e acc = Inr (tree, e')"
    and "distinct (map fst sub)" and "fst ` set sub \<inter> fst ` set acc = {}"
  shows "\<exists>new. tree = acc @ new \<and> map fst new = map fst sub \<and>
           concat (ranges new) = [e..<e'] \<and> e \<le> e' \<and>
           map length (ranges new) = map (\<lambda>kv. chdata_depth (snd kv)) sub \<and>
           (\<forall>r \<in> set (ranges new). contiguous r) \<and>
           (\<forall>l \<in> set new. indices_ti (snd l) = Some (indices (snd l)))"
  using assms
proof (induction sub arbitrary: e acc)
  case Nil
  then show ?case by simp
next
  case (Cons a sub)
  obtain k d where a: "a = (k, d)" by (cases a)
  from Cons.prems(1) a obtain t where d: "d = Tensor t"
    by (cases d) simp_all
  let ?l = "\<lambda>n. \<lparr>indices = [e..<e + n], indices_ti = Some [e..<e + n]\<rparr>"
  from Cons.prems(1) a d obtain n where
    n: "check_ch_shape ws (tshape t) = Inr n"
    and rec: "World_index_subchannels_loop ws sub (e + n) (AList.update k (?l n) acc) = Inr (tree, e')"
    by (simp add: Let_def split: sum.splits)
  have kacc: "k \<notin> fst ` set acc" using Cons.prems(3) a by auto
  have upd: "AList.update k (?l n) acc = acc @ [(k, ?l n)]" using kacc by (rule update_append)
  have disj: "fst ` set sub \<inter> fst ` set (acc @ [(k, ?l n)]) = {}"
    using Cons.prems(2,3) a by auto
  have dsub: "distinct (map fst sub)" using Cons.prems(2) by simp
  from Cons.IH[OF rec[unfolded upd] dsub disj]
  obtain new where new: "tree = (acc @ [(k, ?l n)]) @ new" "map fst new = map fst sub"
    "concat (ranges new) = [e + n..<e']" "e + n \<le> e'"
    "map length (ranges new) = map (\<lambda>kv. chdata_depth (snd kv)) sub"
    "\<forall>r \<in> set (ranges new). contiguous r"
    "\<forall>l \<in> set new. indices_ti (snd l) = Some (indices (snd l))"
    by blast
  have nd: "n = depth_of (tshape t)" using n by (rule check_ch_shape_depth)
  have cat: "[e..<e + n] @ [e + n..<e'] = [e..<e']"
    using new(4) by (intro upt_cat) simp_all
  show ?case
  proof (intro exI[of _ "(k, ?l n) # new"] conjI)
    show "tree = acc @ (k, ?l n) # new" using new(1) by simp
    show "map fst ((k, ?l n) # new) = map fst (a # sub)" using new(2) a by simp
    show "concat (ranges ((k, ?l n) # new)) = [e..<e']" using new(3) cat by simp
    show "e \<le> e'" using new(4) by simp
    show "map length (ranges ((k, ?l n) # new)) = map (\<lambda>kv. chdata_depth (snd kv)) (a # sub)"
      using new(5) a d nd by simp
    show "\<forall>r \<in> set (ranges ((k, ?l n) # new)). contiguous r"
      using new(6) contiguous_upt[of e n] by simp
    show "\<forall>l \<in> set ((k, ?l n) # new). indices_ti (snd l) = Some (indices (snd l))"
      using new(7) by simp
  qed
qed


lemma disjoint_of_distinct_concat:
  "distinct (concat rs) \<Longrightarrow> pairwise_disjoint rs"
proof -
  have aux: "\<And>i j. distinct (concat rs) \<Longrightarrow> i < j \<Longrightarrow> j < length rs \<Longrightarrow>
               set (rs ! i) \<inter> set (rs ! j) = {}"
  proof -
    fix i j show "distinct (concat rs) \<Longrightarrow> i < j \<Longrightarrow> j < length rs \<Longrightarrow>
               set (rs ! i) \<inter> set (rs ! j) = {}"
    proof (induction rs arbitrary: i j)
      case Nil
      then show ?case by simp
    next
      case (Cons r rs)
      obtain j' where j: "j = Suc j'" using Cons.prems(2) by (cases j) auto
      show ?case
      proof (cases i)
        case 0
        have "rs ! j' \<in> set rs" using Cons.prems(3) j by simp
        then show ?thesis using Cons.prems(1) 0 j by auto
      next
        case (Suc i')
        then show ?thesis using Cons.IH[of i' j'] Cons.prems j by simp
      qed
    qed
  qed
  assume d: "distinct (concat rs)"
  show ?thesis
    unfolding pairwise_disjoint_def
  proof (intro ballI impI)
    fix i j assume "i \<in> {0..<length rs}" "j \<in> {0..<length rs}" "i \<noteq> j"
    then consider "i < j" "j < length rs" | "j < i" "i < length rs" by fastforce
    then show "set (rs ! i) \<inter> set (rs ! j) = {}"
    proof cases
      case 1 then show ?thesis using aux[OF d] by blast
    next
      case 2 then show ?thesis using aux[OF d, of j i] by blast
    qed
  qed
qed

lemma World_index_subchannels_ok:
  assumes "World_index_subchannels ws d e = Inr (st, total_depth)" and "distinct (map fst d)"
  shows "map fst st = map fst d \<and> concat (ranges st) = [e..<e + total_depth] \<and>
         map length (ranges st) = map (\<lambda>kv. chdata_depth (snd kv)) d \<and>
         (\<forall>r \<in> set (ranges st). contiguous r) \<and>
         (\<forall>l \<in> set st. indices_ti (snd l) = Some (indices (snd l)))"
proof -
  from assms(1) obtain e' where
    loop: "World_index_subchannels_loop ws d e [] = Inr (st, e')" and tot: "total_depth = e' - e"
    by (auto simp: World_index_subchannels_def split: sum.splits)
  from World_sub_loop[OF loop assms(2)] tot show ?thesis by auto
qed

lemma World_top_loop:
  assumes "World_index_channels_loop ws td e acc = Inr (tree, e')"
    and "distinct (map fst td)" and "fst ` set td \<inter> fst ` set acc = {}"
    and "\<forall>kv \<in> set td. case snd kv of Tensor t \<Rightarrow> True | Dict d \<Rightarrow> distinct (map fst d)"
  shows "\<exists>new. tree = acc @ new \<and> map fst new = map fst td \<and>
           concat (ranges new) = [e..<e'] \<and> e \<le> e' \<and>
           map length (ranges new) = map (\<lambda>kv. chdata_depth (snd kv)) td \<and>
           (\<forall>r \<in> set (ranges new). contiguous r) \<and>
           list_all2 (\<lambda>n kv. sub_ok (snd n) (snd kv)) new td \<and>
           ti_consistent new"
  using assms
proof (induction td arbitrary: e acc)
  case Nil
  then show ?case by (simp add: ti_consistent_def)
next
  case (Cons a td)
  obtain k d where a: "a = (k, d)" by (cases a)
  have "\<exists>nd n. indices nd = [e..<e + n] \<and> indices_ti nd = Some [e..<e + n] \<and>
          n = chdata_depth d \<and> sub_ok nd d \<and>
          (case subchannels nd of None \<Rightarrow> True
           | Some st \<Rightarrow> \<forall>l \<in> set st. indices_ti (snd l) = Some (indices (snd l))) \<and>
          World_index_channels_loop ws td (e + n) (AList.update k nd acc) = Inr (tree, e')"
  proof (cases d)
    case (Tensor t)
    from Cons.prems(1) a Tensor obtain n where
      n: "check_ch_shape ws (tshape t) = Inr n"
      and rec: "World_index_channels_loop ws td (e + n)
          (AList.update k \<lparr>indices = [e..<e + n], indices_ti = Some [e..<e + n], subchannels = None\<rparr> acc)
          = Inr (tree, e')"
      by (simp add: Let_def split: sum.splits)
    have "n = depth_of (tshape t)" using n by (rule check_ch_shape_depth)
    then show ?thesis using rec Tensor
      by (intro exI[of _ "\<lparr>indices = [e..<e + n], indices_ti = Some [e..<e + n], subchannels = None\<rparr>"]
                exI[of _ n]) simp
  next
    case (Dict sd)
    from Cons.prems(1) a Dict obtain st n where
      sub: "World_index_subchannels ws sd e = Inr (st, n)"
      and rec: "World_index_channels_loop ws td (e + n)
          (AList.update k \<lparr>indices = [e..<e + n], indices_ti = Some [e..<e + n], subchannels = Some st\<rparr> acc)
          = Inr (tree, e')"
      by (simp add: Let_def split: sum.splits prod.splits)
    have dsd: "distinct (map fst sd)" using Cons.prems(4) a Dict by simp
    note ok = World_index_subchannels_ok[OF sub dsd]
    have ml: "map length (ranges st) = map (\<lambda>kv. chdata_depth (snd kv)) sd" using ok by blast
    have cc: "concat (ranges st) = [e..<e + n]" using ok by blast
    have "sum_list (map length (ranges st)) = length (concat (ranges st))"
      by (simp add: length_concat)
    also have "\<dots> = n" unfolding cc by simp
    finally have len: "n = sum_list (map (\<lambda>kv. chdata_depth (snd kv)) sd)"
      unfolding ml by simp
    have "distinct (concat (ranges st))" using ok by simp
    then have pd: "pairwise_disjoint (ranges st)" by (rule disjoint_of_distinct_concat)
    show ?thesis using rec Dict ok len pd
      by (intro exI[of _ "\<lparr>indices = [e..<e + n], indices_ti = Some [e..<e + n], subchannels = Some st\<rparr>"]
                exI[of _ n]) simp
  qed
  then obtain nd n where nd: "indices nd = [e..<e + n]" "indices_ti nd = Some [e..<e + n]"
    and n: "n = chdata_depth d" and sok: "sub_ok nd d"
    and tis: "case subchannels nd of None \<Rightarrow> True
           | Some st \<Rightarrow> \<forall>l \<in> set st. indices_ti (snd l) = Some (indices (snd l))"
    and rec: "World_index_channels_loop ws td (e + n) (AList.update k nd acc) = Inr (tree, e')"
    by blast
  have kacc: "k \<notin> fst ` set acc" using Cons.prems(3) a by auto
  have upd: "AList.update k nd acc = acc @ [(k, nd)]" using kacc by (rule update_append)
  have disj: "fst ` set td \<inter> fst ` set (acc @ [(k, nd)]) = {}"
    using Cons.prems(2,3) a by auto
  have dtd: "distinct (map fst td)" using Cons.prems(2) by simp
  have rest: "\<forall>kv \<in> set td. case snd kv of Tensor t \<Rightarrow> True | Dict d \<Rightarrow> distinct (map fst d)"
    using Cons.prems(4) by simp
  from Cons.IH[OF rec[unfolded upd] dtd disj rest]
  obtain new where new: "tree = (acc @ [(k, nd)]) @ new" "map fst new = map fst td"
    "concat (ranges new) = [e + n..<e']" "e + n \<le> e'"
    "map length (ranges new) = map (\<lambda>kv. chdata_depth (snd kv)) td"
    "\<forall>r \<in> set (ranges new). contiguous r"
    "list_all2 (\<lambda>n kv. sub_ok (snd n) (snd kv)) new td"
    "ti_consistent new"
    by blast
  have cat: "[e..<e + n] @ [e + n..<e'] = [e..<e']"
    using new(4) by (intro upt_cat) simp_all
  show ?case
  proof (intro exI[of _ "(k, nd) # new"] conjI)
    show "tree = acc @ (k, nd) # new" using new(1) by simp
    show "map fst ((k, nd) # new) = map fst (a # td)" using new(2) a by simp
    show "concat (ranges ((k, nd) # new)) = [e..<e']" using new(3) cat nd by simp
    show "e \<le> e'" using new(4) by simp
    show "map length (ranges ((k, nd) # new)) = map (\<lambda>kv. chdata_depth (snd kv)) (a # td)"
      using new(5) a n nd by simp
    show "\<forall>r \<in> set (ranges ((k, nd) # new)). contiguous r"
      using new(6) contiguous_upt[of e n] nd by simp
    show "list_all2 (\<lambda>n kv. sub_ok (snd n) (snd kv)) ((k, nd) # new) (a # td)"
      using new(7) sok a by simp
    show "ti_consistent ((k, nd) # new)"
      using new(8) nd tis by (simp add: ti_consistent_def)
  qed
qed

lemma World_layout:
  assumes "World_index_channels_loop ws td start [] = Inr (tree, total_depth)" and "well_keyed td"
  shows "layout_ok start total_depth td tree \<and> ti_consistent tree"
proof -
  from World_top_loop[OF assms(1)] assms(2)
  have p: "map fst tree = map fst td" "concat (ranges tree) = [start..<total_depth]" "start \<le> total_depth"
    "map length (ranges tree) = map (\<lambda>kv. chdata_depth (snd kv)) td"
    "\<forall>r \<in> set (ranges tree). contiguous r"
    "list_all2 (\<lambda>n kv. sub_ok (snd n) (snd kv)) tree td" "ti_consistent tree"
    by (auto simp: well_keyed_def)
  have "sum_list (map length (ranges tree)) = length (concat (ranges tree))"
    by (simp add: length_concat)
  also have "\<dots> = total_depth - start" unfolding p(2) by simp
  finally have sum: "total_depth - start = sum_list (map (\<lambda>kv. chdata_depth (snd kv)) td)"
    unfolding p(4) by simp
  have "distinct (concat (ranges tree))" using p(2) by simp
  then have "pairwise_disjoint (ranges tree)" by (rule disjoint_of_distinct_concat)
  then show ?thesis using p sum by (simp add: layout_ok_def)
qed


lemma Substrate_sub_loop:
  assumes "Substrate_index_subchannels_loop p sub e acc s = (Inr (tree, e'), s')"
    and "distinct (map fst sub)" and "fst ` set sub \<inter> fst ` set acc = {}"
  shows "\<exists>new. tree = acc @ new \<and> map fst new = map fst sub \<and>
           concat (ranges new) = [e..<e'] \<and> e \<le> e' \<and>
           map length (ranges new) = map (\<lambda>kv. chdata_depth (snd kv)) sub \<and>
           (\<forall>r \<in> set (ranges new). contiguous r)"
  using assms
proof (induction sub arbitrary: e acc s)
  case Nil
  then show ?case by simp
next
  case (Cons a sub)
  obtain k d where a: "a = (k, d)" by (cases a)
  from Cons.prems(1) a obtain t where d: "d = Tensor t"
    by (cases d) simp_all
  let ?l = "\<lambda>n. \<lparr>indices = [e..<e + n], indices_ti = None\<rparr>"
  from Cons.prems(1) a d obtain n s2 where
    n: "check_ch_shape (s_shape s) (tshape t) = Inr n"
    and rec: "Substrate_index_subchannels_loop p sub (e + n) (AList.update k (?l n) acc) s2
                = (Inr (tree, e'), s')"
    by (simp add: Let_def split: sum.splits)
  have kacc: "k \<notin> fst ` set acc" using Cons.prems(3) a by auto
  have upd: "AList.update k (?l n) acc = acc @ [(k, ?l n)]" using kacc by (rule update_append)
  have disj: "fst ` set sub \<inter> fst ` set (acc @ [(k, ?l n)]) = {}"
    using Cons.prems(2,3) a by auto
  have dsub: "distinct (map fst sub)" using Cons.prems(2) by simp
  from Cons.IH[OF rec[unfolded upd] dsub disj]
  obtain new where new: "tree = (acc @ [(k, ?l n)]) @ new" "map fst new = map fst sub"
    "concat (ranges new) = [e + n..<e']" "e + n \<le> e'"
    "map length (ranges new) = map (\<lambda>kv. chdata_depth (snd kv)) sub"
    "\<forall>r \<in> set (ranges new). contiguous r"
    by blast
  have nd: "n = depth_of (tshape t)" using n by (rule check_ch_shape_depth)
  have cat: "[e..<e + n] @ [e + n..<e'] = [e..<e']"
    using new(4) by (intro upt_cat) simp_all
  show ?case
  proof (intro exI[of _ "(k, ?l n) # new"] conjI)
    show "tree = acc @ (k, ?l n) # new" using new(1) by simp
    show "map fst ((k, ?l n) # new) = map fst (a # sub)" using new(2) a by simp
    show "concat (ranges ((k, ?l n) # new)) = [e..<e']" using new(3) cat by simp
    show "e \<le> e'" using new(4) by simp
    show "map length (ranges ((k, ?l n) # new)) = map (\<lambda>kv. chdata_depth (snd kv)) (a # sub)"
      using new(5) a d nd by simp
    show "\<forall>r \<in> set (ranges ((k, ?l n) # new)). contiguous r"
      using new(6) contiguous_upt[of e n] by simp
  qed
qed

lemma Substrate_index_subchannels_ok:
  assumes "Substrate_index_subchannels d e p s = (Inr (st, total_depth), s')"
    and "distinct (map fst d)"
  shows "map fst st = map fst d \<and> concat (ranges st) = [e..<e + total_depth] \<and>
         map length (ranges st) = map (\<lambda>kv. chdata_depth (snd kv)) d \<and>
         (\<forall>r \<in> set (ranges st). contiguous r)"
proof -
  from assms(1) obtain e' where
    loop: "Substrate_index_subchannels_loop p d e [] s = (Inr (st, e'), s')"
    and tot: "total_depth = e' - e"
    by (auto simp: Substrate_index_subchannels_def split: sum.splits prod.splits)
  from Substrate_sub_loop[OF loop assms(2)] tot show ?thesis by auto
qed

lemma Substrate_top_loop:
  assumes "Substrate_index_channels_loop td e acc s = (Inr (tree, e'), s')"
    and "distinct (map fst td)" and "fst ` set td \<inter> fst ` set acc = {}"
    and "\<forall>kv \<in> set td. case snd kv of Tensor t \<Rightarrow> True | Dict d \<Rightarrow> distinct (map fst d)"
  shows "\<exists>new. tree = acc @ new \<and> map fst new = map fst td \<and>
           concat (ranges new) = [e..<e'] \<and> e \<le> e' \<and>
           map length (ranges new) = map (\<lambda>kv. chdata_depth (snd kv)) td \<and>
           (\<forall>r \<in> set (ranges new). contiguous r) \<and>
           list_all2 (\<lambda>n kv. sub_ok (snd n) (snd kv)) new td"
  using assms
proof (induction td arbitrary: e acc s)
  case Nil
  then show ?case by simp
next
  case (Cons a td)
  obtain k d where a: "a = (k, d)" by (cases a)
  have "\<exists>nd n s2. indices nd = [e..<e + n] \<and>
          n = chdata_depth d \<and> sub_ok nd d \<and>
          Substrate_index_channels_loop td (e + n) (AList.update k nd acc) s2 = (Inr (tree, e'), s')"
  proof (cases d)
    case (Tensor t)
    from Cons.prems(1) a Tensor obtain n s2 where
      n: "check_ch_shape (s_shape s) (tshape t) = Inr n"
      and rec: "Substrate_index_channels_loop td (e + n)
          (AList.update k \<lparr>indices = [e..<e + n], indices_ti = None, subchannels = None\<rparr> acc) s2
          = (Inr (tree, e'), s')"
      by (simp add: Let_def split: sum.splits)
    have "n = depth_of (tshape t)" using n by (rule check_ch_shape_depth)
    then show ?thesis using rec Tensor
      by (intro exI[of _ "\<lparr>indices = [e..<e + n], indices_ti = None, subchannels = None\<rparr>"]
                exI[of _ n] exI[of _ s2]) simp
  next
    case (Dict sd)
    from Cons.prems(1) a Dict obtain st n s0 s2 where
      sub: "Substrate_index_subchannels sd e k s = (Inr (st, n), s0)"
      and rec: "Substrate_index_channels_loop td (e + n)
          (AList.update k \<lparr>indices = [e..<e + n], indices_ti = None, subchannels = Some st\<rparr> acc) s2
          = (Inr (tree, e'), s')"
      by (simp add: Let_def split: sum.splits prod.splits)
    have dsd: "distinct (map fst sd)" using Cons.prems(4) a Dict by simp
    note ok = Substrate_index_subchannels_ok[OF sub dsd]
    have ml: "map length (ranges st) = map (\<lambda>kv. chdata_depth (snd kv)) sd" using ok by blast
    have cc: "concat (ranges st) = [e..<e + n]" using ok by blast
    have "sum_list (map length (ranges st)) = length (concat (ranges st))"
      by (simp add: length_concat)
    also have "\<dots> = n" unfolding cc by simp
    finally have len: "n = sum_list (map (\<lambda>kv. chdata_depth (snd kv)) sd)"
      unfolding ml by simp
    have "distinct (concat (ranges st))" using ok by simp
    then have pd: "pairwise_disjoint (ranges st)" by (rule disjoint_of_distinct_concat)
    show ?thesis using rec Dict ok len pd
      by (intro exI[of _ "\<lparr>indices = [e..<e + n], indices_ti = None, subchannels = Some st\<rparr>"]
                exI[of _ n] exI[of _ s2]) simp
  qed
  then obtain nd n s2 where nd: "indices nd = [e..<e + n]"
    and n: "n = chdata_depth d" and sok: "sub_ok nd d"
    and rec: "Substrate_index_channels_loop td (e + n) (AList.update k nd acc) s2 = (Inr (tree, e'), s')"
    by blast
  have kacc: "k \<notin> fst ` set acc" using Cons.prems(3) a by auto
  have upd: "AList.update k nd acc = acc @ [(k, nd)]" using kacc by (rule update_append)
  have disj: "fst ` set td \<inter> fst ` set (acc @ [(k, nd)]) = {}"
    using Cons.prems(2,3) a by auto
  have dtd: "distinct (map fst td)" using Cons.prems(2) by simp
  have rest: "\<forall>kv \<in> set td. case snd kv of Tensor t \<Rightarrow> True | Dict d \<Rightarrow> distinct (map fst d)"
    using Cons.prems(4) by simp
  from Cons.IH[OF rec[unfolded upd] dtd disj rest]
  obtain new where new: "tree = (acc @ [(k, nd)]) @ new" "map fst new = map fst td"
    "concat (ranges new) = [e + n..<e']" "e + n \<le> e'"
    "map length (ranges new) = map (\<lambda>kv. chdata_depth (snd kv)) td"
    "\<forall>r \<in> set (ranges new). contiguous r"
    "list_all2 (\<lambda>n kv. sub_ok (snd n) (snd kv)) new td"
    by blast
  have cat: "[e..<e + n] @ [e + n..<e'] = [e..<e']"
    using new(4) by (intro upt_cat) simp_all
  show ?case
  proof (intro exI[of _ "(k, nd) # new"] conjI)
    show "tree = acc @ (k, nd) # new" using new(1) by simp
    show "map fst ((k, nd) # new) = map fst (a # td)" using new(2) a by simp
    show "concat (ranges ((k, nd) # new)) = [e..<e']" using new(3) cat nd by simp
    show "e \<le> e'" using new(4) by simp
    show "map length (ranges ((k, nd) # new)) = map (\<lambda>kv. chdata_depth (snd kv)) (a # td)"
      using new(5) a n nd by simp
    show "\<forall>r \<in> set (ranges ((k, nd) # new)). contiguous r"
      using new(6) contiguous_upt[of e n] nd by simp
    show "list_all2 (\<lambda>n kv. sub_ok (snd n) (snd kv)) ((k, nd) # new) (a # td)"
      using new(7) sok a by simp
  qed
qed

lemma Substrate_layout:
  assumes "Substrate_index_channels_loop td start [] s = (Inr (tree, total_depth), s')"
    and "well_keyed td"
  shows "layout_ok start total_depth td tree"
proof -
  from Substrate_top_loop[OF assms(1)] assms(2)
  have p: "map fst tree = map fst td" "concat (ranges tree) = [start..<total_depth]"
    "start \<le> total_depth"
    "map length (ranges tree) = map (\<lambda>kv. chdata_depth (snd kv)) td"
    "\<forall>r \<in> set (ranges tree). contiguous r"
    "list_all2 (\<lambda>n kv. sub_ok (snd n) (snd kv)) tree td"
    by (auto simp: well_keyed_def)
  have "sum_list (map length (ranges tree)) = length (concat (ranges tree))"
    by (simp add: length_concat)
  also have "\<dots> = total_depth - start" unfolding p(2) by simp
  finally have sum: "total_depth - start = sum_list (map (\<lambda>kv. chdata_depth (snd kv)) td)"
    unfolding p(4) by simp
  have "distinct (concat (ranges tree))" using p(2) by simp
  then have "pairwise_disjoint (ranges tree)" by (rule disjoint_of_distinct_concat)
  then show ?thesis using p sum by (simp add: layout_ok_def)
qed

section \<open>Allocation: the shape of the buffer and what the loops leave alone\<close>

lemma assign_depth_shape:
  "assign_depth t inds v = Inr t' \<Longrightarrow> tshape t' = tshape t \<and> length (planes t') = length (planes t)"
  by (auto simp: assign_depth_def split: if_splits)

lemma transfer_subchannels_shape:
  "transfer_subchannels c td st mem cd = (Inr mem', cd') \<Longrightarrow>
     tshape mem' = tshape mem \<and> length (planes mem') = length (planes mem)"
proof (induction st arbitrary: mem cd)
  case Nil
  then show ?case by simp
next
  case (Cons a st)
  obtain k l where a: "a = (k, l)" by (cases a)
  from Cons.prems a obtain t m1 cd1 where
    as: "assign_depth mem (indices l) t = Inr m1"
    and rec: "transfer_subchannels c td st m1 cd1 = (Inr mem', cd')"
    by (auto split: option.splits chdata.splits sum.splits)
  from Cons.IH[OF rec] assign_depth_shape[OF as] show ?case by simp
qed

lemma transfer_to_mem_shape:
  "transfer_to_mem mem td tree cd = (Inr mem', cd') \<Longrightarrow>
     tshape mem' = tshape mem \<and> length (planes mem') = length (planes mem)"
proof (induction tree arbitrary: mem cd)
  case Nil
  then show ?case by simp
next
  case (Cons a tree)
  obtain k n where a: "a = (k, n)" by (cases a)
  show ?case
  proof (cases "subchannels n")
    case None
    from Cons.prems a None obtain t m1 cd1 where
      as: "assign_depth mem (indices n) t = Inr m1"
      and rec: "transfer_to_mem m1 td tree cd1 = (Inr mem', cd')"
      by (auto split: option.splits chdata.splits sum.splits)
    from Cons.IH[OF rec] assign_depth_shape[OF as] show ?thesis by simp
  next
    case (Some st)
    from Cons.prems a Some obtain m1 cd1 cd2 where
      sub: "transfer_subchannels k td st mem cd = (Inr m1, cd1)"
      and rec: "transfer_to_mem m1 td tree cd2 = (Inr mem', cd')"
      by (auto split: option.splits sum.splits prod.splits)
    from Cons.IH[OF rec] transfer_subchannels_shape[OF sub] show ?thesis by simp
  qed
qed

lemma World_malloc_Inr:
  assumes "World_malloc g td w = (Inr (), w')"
  obtains tree total_depth mem cd where
    "2 < length (w_shape w)" "w_mem w = None"
    "World_index_channels_loop (w_shape w) td (w_shape w ! 2) [] = Inr (tree, total_depth)"
    "transfer_to_mem (torch_empty g (w_shape w ! 0) (w_shape w ! 1) total_depth) td tree (w_channels w)
       = (Inr mem, cd)"
    "w' = w\<lparr>w_mem := Some mem, w_channels := cd,
            w_indices := Some \<lparr>index_tree = tree, does_return_ti = False\<rparr>\<rparr>"
  using assms
  by (auto simp: World_malloc_def split: if_splits sum.splits prod.splits)

lemma add_lims_frame:
  "add_lims k c s = Inr s' \<Longrightarrow>
     s_shape s' = s_shape s \<and> s_mem s' = s_mem s \<and> s_channels s' = s_channels s \<and>
     s_windex s' = s_windex s"
  by (auto simp: add_lims_def split: option.splits)

lemma add_ti_inds_frame [simp]:
  "s_shape (add_ti_inds k i s) = s_shape s" "s_mem (add_ti_inds k i s) = s_mem s"
  "s_channels (add_ti_inds k i s) = s_channels s" "s_windex (add_ti_inds k i s) = s_windex s"
  by (simp_all add: add_ti_inds_def)

lemma Substrate_sub_loop_frame:
  "Substrate_index_subchannels_loop p sub e acc s = (r, s') \<Longrightarrow>
     s_shape s' = s_shape s \<and> s_mem s' = s_mem s \<and> s_channels s' = s_channels s \<and>
     s_windex s' = s_windex s"
proof (induction sub arbitrary: e acc s)
  case Nil
  then show ?case by simp
next
  case (Cons a sub)
  obtain k d where a: "a = (k, d)" by (cases a)
  show ?case
  proof (cases d)
    case (Dict sd)
    then show ?thesis using Cons.prems a by simp
  next
    case (Tensor t)
    show ?thesis
    proof (cases "check_ch_shape (s_shape s) (tshape t)")
      case (Inl err)
      then show ?thesis using Cons.prems a Tensor by simp
    next
      case (Inr n)
      let ?s1 = "add_ti_inds (p @ ''_'' @ k) [e..<e + n] s"
      show ?thesis
      proof (cases "add_lims (p @ ''_'' @ k) p ?s1")
        case (Inl err)
        then show ?thesis using Cons.prems a Tensor Inr by (auto simp: Let_def)
      next
        case (Inr s2)
        from Cons.prems a Tensor \<open>check_ch_shape (s_shape s) (tshape t) = Inr n\<close> Inr
        have "Substrate_index_subchannels_loop p sub (e + n)
                (AList.update k \<lparr>indices = [e..<e + n], indices_ti = None\<rparr> acc) s2 = (r, s')"
          by (simp add: Let_def)
        from Cons.IH[OF this] add_lims_frame[OF Inr] show ?thesis by simp
      qed
    qed
  qed
qed

lemma Substrate_top_loop_frame:
  "Substrate_index_channels_loop td e acc s = (r, s') \<Longrightarrow>
     s_shape s' = s_shape s \<and> s_mem s' = s_mem s \<and> s_channels s' = s_channels s \<and>
     s_windex s' = s_windex s"
proof (induction td arbitrary: e acc s)
  case Nil
  then show ?case by simp
next
  case (Cons a td)
  obtain k d where a: "a = (k, d)" by (cases a)
  show ?case
  proof (cases d)
    case (Tensor t)
    show ?thesis
    proof (cases "check_ch_shape (s_shape s) (tshape t)")
      case (Inl err)
      then show ?thesis using Cons.prems a Tensor by simp
    next
      case (Inr n)
      let ?s1 = "add_ti_inds k [e..<e + n] s"
      show ?thesis
      proof (cases "add_lims k k ?s1")
        case (Inl err)
        then show ?thesis using Cons.prems a Tensor Inr by (auto simp: Let_def)
      next
        case (Inr s2)
        from Cons.prems a Tensor \<open>check_ch_shape (s_shape s) (tshape t) = Inr n\<close> Inr
        have "Substrate_index_channels_loop td (e + n)
                (AList.update k \<lparr>indices = [e..<e + n], indices_ti = None, subchannels = None\<rparr> acc)
                s2 = (r, s')"
          by (simp add: Let_def)
        from Cons.IH[OF this] add_lims_frame[OF Inr] show ?thesis by simp
      qed
    qed
  next
    case (Dict sd)
    obtain r0 s0 where sub: "Substrate_index_subchannels sd e k s = (r0, s0)"
      by (cases "Substrate_index_subchannels sd e k s")
    then obtain r0' where "Substrate_index_subchannels_loop k sd e [] s = (r0', s0)"
      by (auto simp: Substrate_index_subchannels_def split: prod.splits sum.splits)
    note f0 = Substrate_sub_loop_frame[OF this]
    show ?thesis
    proof (cases r0)
      case (Inl err)
      then show ?thesis using Cons.prems a Dict sub f0 by simp
    next
      case (Inr res)
      obtain st n where res: "res = (st, n)" by (cases res)
      let ?s1 = "add_ti_inds k [e..<e + n] s0"
      show ?thesis
      proof (cases "add_lims k k ?s1")
        case (Inl err)
        then show ?thesis using Cons.prems a Dict sub Inr res f0 by (auto simp: Let_def)
      next
        case (Inr s2)
        from Cons.prems a Dict sub \<open>r0 = Inr res\<close> res Inr
        have "Substrate_index_channels_loop td (e + n)
                (AList.update k \<lparr>indices = [e..<e + n], indices_ti = None, subchannels = Some st\<rparr> acc)
                s2 = (r, s')"
          by (simp add: Let_def)
        from Cons.IH[OF this] add_lims_frame[OF Inr] f0 show ?thesis by simp
      qed
    qed
  qed
qed

lemma Substrate_malloc_Inr:
  assumes "Substrate_malloc td s = (Inr (), s')"
  obtains tree total_depth s1 mem cd where
    "2 < length (s_shape s)" "s_mem s = None"
    "Substrate_index_channels_loop td (s_shape s ! 2) [] s = (Inr (tree, total_depth), s1)"
    "transfer_to_mem (torch_zeros (s_shape s ! 0) (s_shape s ! 1) total_depth) td tree (s_channels s)
       = (Inr mem, cd)"
    "s_mem s' = Some (permute_unsqueeze mem)" "s_windex s' = Some tree"
proof -
  from assms have l: "2 < length (s_shape s)" and m: "s_mem s = None"
    by (auto simp: Substrate_malloc_def split: if_splits)
  from assms l m obtain tree total_depth s1 where
    loop: "Substrate_index_channels_loop td (s_shape s ! 2) [] s = (Inr (tree, total_depth), s1)"
    by (auto simp: Substrate_malloc_def Let_def split: sum.splits prod.splits)
  note f = Substrate_top_loop_frame[OF loop]
  have nth: "(take 2 (s_shape s) @ [total_depth]) ! 0 = s_shape s ! 0"
    "(take 2 (s_shape s) @ [total_depth]) ! 1 = s_shape s ! 1"
    "(take 2 (s_shape s) @ [total_depth]) ! 2 = total_depth"
    using l by (simp_all add: nth_append)
  from assms l m loop f nth obtain mem cd where
    "transfer_to_mem (torch_zeros (s_shape s ! 0) (s_shape s ! 1) total_depth) td tree (s_channels s)
       = (Inr mem, cd)"
    "s_mem s' = Some (permute_unsqueeze mem)" "s_windex s' = Some tree"
    by (auto simp: Substrate_malloc_def Let_def split: sum.splits prod.splits)
  with l m loop that show ?thesis by blast
qed

section \<open>The resolver\<close>

lemma get_tuple_inds_host:
  "\<not> does_return_ti wi \<Longrightarrow> get_tuple_inds wi c sk = Inr r \<Longrightarrow> \<exists>is. r = Host is"
  by (auto simp: get_tuple_inds_def split: subkey.splits sum.splits)

lemma windex_getitem_host:
  "\<not> does_return_ti wi \<Longrightarrow> windex_getitem wi k = Inr r \<Longrightarrow> \<exists>is. r = Host is"
  by (auto simp: windex_getitem_def split: key.splits sum.splits option.splits
           dest: get_tuple_inds_host)

lemma key_list_inds_concat:
  assumes "\<not> does_return_ti wi"
    and "\<forall>k \<in> set ks. is_atom k \<and> \<not> isl (windex_getitem wi k)"
  shows "key_list_inds wi ks acc =
           Inr (acc @ concat (map (\<lambda>k. host_inds (windex_getitem wi k)) ks))"
  using assms(2)
proof (induction ks arbitrary: acc)
  case Nil
  then show ?case by simp
next
  case (Cons k ks)
  from Cons.prems obtain r where r: "windex_getitem wi k = Inr r"
    by (cases "windex_getitem wi k") auto
  with assms(1) obtain js where js: "r = Host js" using windex_getitem_host by blast
  have step: "key_list_inds wi (k # ks) acc = key_list_inds wi ks (acc @ js)"
  proof (cases k)
    case (Name c)
    then show ?thesis using r js assms(1)
      by (auto simp: windex_getitem_def split: option.splits)
  next
    case (Tuple c sk)
    then show ?thesis using r js by (simp add: windex_getitem_def)
  next
    case (KeyList x)
    then show ?thesis using Cons.prems by simp
  qed
  have "\<forall>k \<in> set ks. is_atom k \<and> \<not> isl (windex_getitem wi k)" using Cons.prems by simp
  from Cons.IH[OF this, of "acc @ js"] step r js show ?case by simp
qed


lemma tree_lookup_rev:
  assumes "list_all2 (\<lambda>e kv. P (snd e) (snd kv)) tree td" and "map fst tree = map fst td"
    and "map_of tree c = Some n"
  shows "\<exists>x. (c, x) \<in> set td \<and> P n x"
  using assms
proof (induction tree td rule: list_all2_induct)
  case Nil
  then show ?case by simp
next
  case (Cons e tree kv td)
  then show ?case by (cases e; cases kv) (auto split: if_splits)
qed


lemma World_malloc_layout:
  assumes "World_malloc g td w = (Inr (), w')" and "well_keyed td"
  obtains tree mem where "w_indices w' = Some \<lparr>index_tree = tree, does_return_ti = False\<rparr>"
    "w_mem w' = Some mem" "w_shape w' = w_shape w" "2 < length (w_shape w)"
    "tshape mem = [w_shape w ! 0, w_shape w ! 1, length (planes mem)]"
    "layout_ok (w_shape w ! 2) (length (planes mem)) td tree" "ti_consistent tree"
proof -
  from assms(1) obtain tree total_depth mem cd where
    l: "2 < length (w_shape w)" and
    loop: "World_index_channels_loop (w_shape w) td (w_shape w ! 2) [] = Inr (tree, total_depth)"
    and tr: "transfer_to_mem (torch_empty g (w_shape w ! 0) (w_shape w ! 1) total_depth)
               td tree (w_channels w) = (Inr mem, cd)"
    and w': "w' = w\<lparr>w_mem := Some mem, w_channels := cd,
            w_indices := Some \<lparr>index_tree = tree, does_return_ti = False\<rparr>\<rparr>"
    by (rule World_malloc_Inr)
  have sh: "tshape mem = [w_shape w ! 0, w_shape w ! 1, total_depth]"
    "length (planes mem) = total_depth"
    using transfer_to_mem_shape[OF tr] by (simp_all add: torch_empty_def)
  from World_layout[OF loop assms(2)] sh w' l that show ?thesis by simp
qed

section \<open>Reads and writes on an allocated world\<close>

lemma return_ti_restore [simp]: "return_ti (does_return_ti wi) (return_ti b wi) = wi"
  by (simp add: return_ti_def)

lemma return_ti_simps [simp]:
  "index_tree (return_ti b wi) = index_tree wi" "does_return_ti (return_ti b wi) = b"
  by (simp_all add: return_ti_def)

lemma World_getitem_unalloc: "w_mem w = None \<Longrightarrow> World_getitem k w = (Inl NotAllocated, w)"
  by (simp add: World_getitem_def)

lemma World_getitem_alloc:
  assumes "w_mem w = Some mem" and "w_indices w = Some wi"
  shows "World_getitem k w =
     (case windex_getitem (return_ti False wi) k of
        Inl e \<Rightarrow> (Inl e, w\<lparr>w_indices := Some (return_ti False wi)\<rparr>)
      | Inr r \<Rightarrow>
          (case index_depth mem (host_inds (Inr r)) of
             Inl e \<Rightarrow> (Inl e, w\<lparr>w_indices := Some (return_ti False wi)\<rparr>)
           | Inr val \<Rightarrow> (Inr val, w)))"
proof (cases "windex_getitem (return_ti False wi) k")
  case (Inl e)
  then show ?thesis using assms by (simp add: World_getitem_def Let_def)
next
  case (Inr r)
  then obtain inds where r: "r = Host inds"
    using windex_getitem_host[of "return_ti False wi" k r] by auto
  have "w\<lparr>w_indices := Some wi\<rparr> = w" using assms(2) by simp
  then show ?thesis using assms Inr r
    by (simp add: World_getitem_def Let_def split: sum.splits)
qed

lemma World_setitem_unalloc: "w_mem w = None \<Longrightarrow> World_setitem k v w = (Inl NotAllocated, w)"
  by (simp add: World_setitem_def)

lemma World_setitem_alloc:
  assumes "w_mem w = Some mem" and "w_indices w = Some wi"
  shows "World_setitem k v w =
     (case windex_getitem (return_ti False wi) k of
        Inl e \<Rightarrow> (Inl e, w\<lparr>w_indices := Some (return_ti False wi)\<rparr>)
      | Inr r \<Rightarrow>
          (let inds = host_inds (Inr r) in
           if length inds > 1 then
             (case index_depth mem inds of
                Inl e \<Rightarrow> (Inl e, w\<lparr>w_indices := Some (return_ti False wi)\<rparr>)
              | Inr cur \<Rightarrow> if tshape v \<noteq> tshape cur then (Inl ShapeMismatch, w) else (Inr (), w))
           else if length inds = 1 then
             (let val' = (if length (tshape v) = 3 then squeeze2 v else v) in
              if tshape val' \<noteq> take 2 (w_shape w) then (Inl ShapeMismatch, w)
              else if \<not> inds ! 0 < length (planes mem) then (Inl IndexError, w)
              else (case planes val' of
                      [p] \<Rightarrow> (Inr (), w\<lparr>w_mem := Some (mem\<lparr>planes := (planes mem)[inds ! 0 := p]\<rparr>)\<rparr>)
                    | _ \<Rightarrow> (Inl RuntimeError, w)))
           else (Inr (), w)))"
proof (cases "windex_getitem (return_ti False wi) k")
  case (Inl e)
  then show ?thesis using assms by (simp add: World_setitem_def Let_def)
next
  case (Inr r)
  then obtain inds where r: "r = Host inds"
    using windex_getitem_host[of "return_ti False wi" k r] by auto
  have w1: "w\<lparr>w_indices := Some wi\<rparr> = w" using assms(2) by simp
  have g: "World_getitem k w =
          (case index_depth mem inds of
             Inl e \<Rightarrow> (Inl e, w\<lparr>w_indices := Some (return_ti False wi)\<rparr>)
           | Inr val \<Rightarrow> (Inr val, w))"
    using World_getitem_alloc[OF assms, of k] Inr r by simp
  have g': "World_getitem k (w\<lparr>w_indices := Some wi\<rparr>) =
          (case index_depth mem inds of
             Inl e \<Rightarrow> (Inl e, w\<lparr>w_indices := Some (return_ti False wi)\<rparr>)
           | Inr val \<Rightarrow> (Inr val, w))"
    using g by (simp only: w1)
  consider "length inds > 1" | "length inds = 1" | "length inds = 0" by linarith
  then show ?thesis
  proof cases
    case 1
    then show ?thesis using assms Inr r g'
      by (simp add: World_setitem_def Let_def split: sum.splits)
  next
    case 2
    then show ?thesis using assms Inr r
      by (simp add: World_setitem_def Let_def w1 split: list.splits)
  next
    case 3
    then show ?thesis using assms Inr r
      by (simp add: World_setitem_def Let_def w1)
  qed
qed

lemma World_getitem_state:
  "snd (World_getitem k w) = w \<or>
   (\<exists>wi. w_indices w = Some wi \<and> snd (World_getitem k w) = w\<lparr>w_indices := Some (return_ti False wi)\<rparr>)"
proof (cases "w_mem w")
  case None
  then show ?thesis by (simp add: World_getitem_unalloc)
next
  case (Some mem)
  show ?thesis
  proof (cases "w_indices w")
    case None
    then show ?thesis using Some by (simp add: World_getitem_def)
  next
    case (Some wi)
    show ?thesis
      unfolding World_getitem_alloc[OF \<open>w_mem w = Some mem\<close> Some]
      using Some by (simp split: sum.splits)
  qed
qed

lemma World_getitem_frame:
  "w_mem (snd (World_getitem k w)) = w_mem w"
  "w_shape (snd (World_getitem k w)) = w_shape w"
  "w_channels (snd (World_getitem k w)) = w_channels w"
  "map_option index_tree (w_indices (snd (World_getitem k w))) = map_option index_tree (w_indices w)"
  using World_getitem_state[of k w] by auto

lemma World_setitem_state:
  "\<exists>wix m. snd (World_setitem k v w) = w\<lparr>w_indices := wix, w_mem := m\<rparr> \<and>
     map_option index_tree wix = map_option index_tree (w_indices w) \<and>
     map_option tshape m = map_option tshape (w_mem w) \<and>
     map_option (\<lambda>t. length (planes t)) m = map_option (\<lambda>t. length (planes t)) (w_mem w)"
proof -
  define P where "P = (\<lambda>w'. \<exists>wix m. w' = w\<lparr>w_indices := wix, w_mem := m\<rparr> \<and>
     map_option index_tree wix = map_option index_tree (w_indices w) \<and>
     map_option tshape m = map_option tshape (w_mem w) \<and>
     map_option (\<lambda>t. length (planes t)) m = map_option (\<lambda>t. length (planes t)) (w_mem w))"
  have same: "P w"
    unfolding P_def by (intro exI[of _ "w_indices w"] exI[of _ "w_mem w"]) simp
  have "P (snd (World_setitem k v w))"
  proof (cases "w_mem w")
    case None
    then show ?thesis using same by (simp add: World_setitem_unalloc)
  next
    case (Some mem)
    show ?thesis
    proof (cases "w_indices w")
      case None
      then show ?thesis using Some same by (simp add: World_setitem_def)
    next
      case wi: (Some wi)
      have flag: "P (w\<lparr>w_indices := Some (return_ti False wi)\<rparr>)"
        unfolding P_def using wi
        by (intro exI[of _ "Some (return_ti False wi)"] exI[of _ "w_mem w"]) simp
      have upd: "P (w\<lparr>w_mem := Some (mem\<lparr>planes := (planes mem)[i := p]\<rparr>)\<rparr>)" for i p
        unfolding P_def using Some
        by (intro exI[of _ "w_indices w"] exI[of _ "Some (mem\<lparr>planes := (planes mem)[i := p]\<rparr>)"]) simp
      show ?thesis
        unfolding World_setitem_alloc[OF Some wi]
        by (simp add: Let_def same flag upd split: sum.splits list.splits)
    qed
  qed
  then show ?thesis unfolding P_def .
qed

lemma World_setitem_frame:
  "w_shape (snd (World_setitem k v w)) = w_shape w"
  "w_channels (snd (World_setitem k v w)) = w_channels w"
  "map_option index_tree (w_indices (snd (World_setitem k v w))) = map_option index_tree (w_indices w)"
  "map_option tshape (w_mem (snd (World_setitem k v w))) = map_option tshape (w_mem w)"
  "map_option (\<lambda>t. length (planes t)) (w_mem (snd (World_setitem k v w)))
     = map_option (\<lambda>t. length (planes t)) (w_mem w)"
proof -
  from World_setitem_state[of k v w] obtain wix m where
    s: "snd (World_setitem k v w) = w\<lparr>w_indices := wix, w_mem := m\<rparr>"
    and f: "map_option index_tree wix = map_option index_tree (w_indices w)"
     "map_option tshape m = map_option tshape (w_mem w)"
     "map_option (\<lambda>t. length (planes t)) m = map_option (\<lambda>t. length (planes t)) (w_mem w)"
    by blast
  show "w_shape (snd (World_setitem k v w)) = w_shape w"
    "w_channels (snd (World_setitem k v w)) = w_channels w"
    "map_option index_tree (w_indices (snd (World_setitem k v w))) = map_option index_tree (w_indices w)"
    "map_option tshape (w_mem (snd (World_setitem k v w))) = map_option tshape (w_mem w)"
    "map_option (\<lambda>t. length (planes t)) (w_mem (snd (World_setitem k v w)))
     = map_option (\<lambda>t. length (planes t)) (w_mem w)"
    using f by (simp_all add: s)
qed

lemma World_getitem_ok_state: "fst (World_getitem k w) = Inr v \<Longrightarrow> snd (World_getitem k w) = w"
proof (cases "w_mem w")
  case None
  assume "fst (World_getitem k w) = Inr v"
  then show ?thesis using None by (simp add: World_getitem_unalloc)
next
  case (Some mem)
  assume a: "fst (World_getitem k w) = Inr v"
  show ?thesis
  proof (cases "w_indices w")
    case None
    then show ?thesis using Some a by (simp add: World_getitem_def)
  next
    case wi: (Some wi)
    show ?thesis using a
      unfolding World_getitem_alloc[OF Some wi]
      by (simp split: sum.splits)
  qed
qed

lemma World_setitem_fail:
  assumes "w_mem w = Some mem" and "w_indices w = Some wi"
    and "windex_getitem (return_ti False wi) k = Inl e"
  shows "World_setitem k v w = (Inl e, w\<lparr>w_indices := Some (return_ti False wi)\<rparr>)"
  unfolding World_setitem_alloc[OF assms(1,2)] using assms(3) by simp

lemma World_setitem_multi:
  assumes "w_mem w = Some mem" and "w_indices w = Some wi"
    and "windex_getitem (return_ti False wi) k = Inr (Host inds)" and "length inds > 1"
  shows "World_setitem k v w =
           (case index_depth mem inds of
              Inl e \<Rightarrow> (Inl e, w\<lparr>w_indices := Some (return_ti False wi)\<rparr>)
            | Inr cur \<Rightarrow> if tshape v \<noteq> tshape cur then (Inl ShapeMismatch, w) else (Inr (), w))"
  unfolding World_setitem_alloc[OF assms(1,2)] using assms(3,4) by (simp add: Let_def)

lemma World_setitem_single:
  assumes "w_mem w = Some mem" and "w_indices w = Some wi"
    and "windex_getitem (return_ti False wi) k = Inr (Host [i])"
    and "val' = (if length (tshape v) = 3 then squeeze2 v else v)"
  shows "World_setitem k v w =
           (if tshape val' \<noteq> take 2 (w_shape w) then (Inl ShapeMismatch, w)
            else if \<not> i < length (planes mem) then (Inl IndexError, w)
            else (case planes val' of
                    [p] \<Rightarrow> (Inr (), w\<lparr>w_mem := Some (mem\<lparr>planes := (planes mem)[i := p]\<rparr>)\<rparr>)
                  | _ \<Rightarrow> (Inl RuntimeError, w)))"
  unfolding World_setitem_alloc[OF assms(1,2)] using assms(3)
  by (simp add: Let_def assms(4)[symmetric] split: list.splits)

lemma World_setitem_empty:
  assumes "w_mem w = Some mem" and "w_indices w = Some wi"
    and "windex_getitem (return_ti False wi) k = Inr (Host [])"
  shows "World_setitem k v w = (Inr (), w)"
  unfolding World_setitem_alloc[OF assms(1,2)] using assms(3) by (simp add: Let_def)

lemma length_cases:
  obtains "xs = []" | x where "xs = [x]" | "length xs > 1"
  by (cases xs; cases "tl xs") auto

lemma World_setitem_ok_flag:
  assumes "fst (World_setitem k v w) = Inr ()"
  shows "w_indices (snd (World_setitem k v w)) = w_indices w"
proof (cases "w_mem w")
  case None
  then show ?thesis by (simp add: World_setitem_unalloc)
next
  case (Some mem)
  show ?thesis
  proof (cases "w_indices w")
    case None
    then show ?thesis using Some by (simp add: World_setitem_def)
  next
    case wi: (Some wi)
    show ?thesis
    proof (cases "windex_getitem (return_ti False wi) k")
      case (Inl e)
      then show ?thesis using assms World_setitem_fail[OF Some wi Inl] by simp
    next
      case (Inr r)
      then obtain inds where r: "windex_getitem (return_ti False wi) k = Inr (Host inds)"
        using windex_getitem_host[of "return_ti False wi" k r] by auto
      show ?thesis
      proof (cases inds rule: length_cases)
        case 1
        then show ?thesis using World_setitem_empty[OF Some wi] r by simp
      next
        case (2 i)
        define val' where "val' = (if length (tshape v) = 3 then squeeze2 v else v)"
        have "snd (World_setitem k v w) = w \<or>
              (\<exists>p. snd (World_setitem k v w) = w\<lparr>w_mem := Some (mem\<lparr>planes := (planes mem)[i := p]\<rparr>)\<rparr>)"
          unfolding World_setitem_single[OF Some wi r[unfolded 2] val'_def]
          by (auto split: list.splits)
        then show ?thesis by auto
      next
        case 3
        have "snd (World_setitem k v w) = w \<or> fst (World_setitem k v w) \<noteq> Inr ()"
          unfolding World_setitem_multi[OF Some wi r 3]
          by (simp split: sum.splits)
        then show ?thesis using assms by auto
      qed
    qed
  qed
qed

section \<open>The registry and the lifecycle\<close>





lemma World_call_mem:
  assumes "w_mem w \<noteq> None"
  shows "w_mem (World_call op w) \<noteq> None"
proof (cases op)
  case (Getitem k)
  then show ?thesis using assms by (simp add: World_getitem_frame)
next
  case (Setitem k v)
  have "map_option tshape (w_mem (snd (World_setitem k v w))) = map_option tshape (w_mem w)"
    by (rule World_setitem_frame)
  then show ?thesis using assms Setitem by auto
qed (use assms in \<open>auto simp: World_add_channel_def World_add_channels_def World_malloc_def\<close>)

lemma World_calls_mem: "w_mem w \<noteq> None \<Longrightarrow> w_mem (World_calls ops w) \<noteq> None"
proof (induction ops arbitrary: w)
  case Nil
  then show ?case by (simp add: World_calls_def)
next
  case (Cons a ops)
  from World_call_mem[OF Cons.prems] have "w_mem (World_call a w) \<noteq> None" .
  from Cons.IH[OF this] show ?case by (simp add: World_calls_def)
qed

lemma Substrate_call_mem:
  assumes "s_mem s \<noteq> None"
  shows "s_mem (Substrate_call op s) \<noteq> None"
  by (cases op)
     (use assms in \<open>auto simp: Substrate_add_channel_def Substrate_add_channels_def
        Substrate_malloc_def Substrate_setitem_def\<close>)

lemma Substrate_calls_mem: "s_mem s \<noteq> None \<Longrightarrow> s_mem (Substrate_calls ops s) \<noteq> None"
proof (induction ops arbitrary: s)
  case Nil
  then show ?case by (simp add: Substrate_calls_def)
next
  case (Cons a ops)
  from Substrate_call_mem[OF Cons.prems] have "s_mem (Substrate_call a s) \<noteq> None" .
  from Cons.IH[OF this] show ?case by (simp add: Substrate_calls_def)
qed



lemma keys_update: "set (map fst (AList.update k v al)) = insert k (set (map fst al))"
  using AList.dom_update[of k v al] by simp




section \<open>Resolved indices lie in the layout\<close>

lemma return_ti_False_eq: "return_ti False wi = \<lparr>index_tree = index_tree wi, does_return_ti = False\<rparr>"
  by (simp add: return_ti_def)

lemma sub_ok_in:
  assumes "sub_ok n x" and "subchannels n = Some st" and "l \<in> set st"
  shows "set (indices (snd l)) \<subseteq> set (indices n)"
proof (cases x)
  case (Tensor t)
  then show ?thesis using assms by simp
next
  case (Dict d)
  then have "concat (ranges st) = indices n" using assms by simp
  moreover have "indices (snd l) \<in> set (ranges st)" using assms(3) by (auto simp: ranges_def)
  ultimately show ?thesis by (metis Sup_upper UN_simps(10) image_eqI set_concat subsetI subset_trans)
qed

lemma layout_in_range:
  assumes "layout_ok start D td tree"
  shows "in_range tree {start..<D}"
  unfolding in_range_def
proof (intro ballI conjI)
  fix e assume e: "e \<in> set tree"
  have cc: "concat (ranges tree) = [start..<D]" using assms by (simp add: layout_ok_def)
  have "indices (snd e) \<in> set (ranges tree)" using e by (auto simp: ranges_def)
  then have "set (indices (snd e)) \<subseteq> set (concat (ranges tree))" by auto
  then show top: "set (indices (snd e)) \<subseteq> {start..<D}" unfolding cc by simp
  show "case subchannels (snd e) of None \<Rightarrow> True
        | Some st \<Rightarrow> \<forall>l \<in> set st. set (indices (snd l)) \<subseteq> {start..<D}"
  proof (cases "subchannels (snd e)")
    case None
    then show ?thesis by simp
  next
    case (Some st)
    have rel: "list_all2 (\<lambda>e kv. sub_ok (snd e) (snd kv)) tree td" using assms by (simp add: layout_ok_def)
    from e obtain i where i: "i < length tree" "e = tree ! i" by (auto simp: in_set_conv_nth)
    with rel have "sub_ok (snd e) (snd (td ! i))" by (simp add: list_all2_conv_all_nth)
    from sub_ok_in[OF this Some] top show ?thesis using Some by auto
  qed
qed

lemma sub_lookup_in_range:
  assumes "in_range tree S" and "sub_lookup tree c s = Inr l"
  shows "set (indices l) \<subseteq> S"
proof -
  from assms(2) obtain n st where n: "map_of tree c = Some n" "subchannels n = Some st" "map_of st s = Some l"
    by (auto simp: sub_lookup_def split: option.splits)
  then have "(c, n) \<in> set tree" "(s, l) \<in> set st" by (simp_all add: map_of_SomeD)
  then show ?thesis using assms(1) n(2) by (fastforce simp: in_range_def)
qed

lemma sub_list_inds_in_range:
  assumes "in_range tree S"
  shows "sub_list_inds tree c ss acc = Inr inds \<Longrightarrow> set acc \<subseteq> S \<Longrightarrow> set inds \<subseteq> S"
proof (induction ss arbitrary: acc)
  case Nil
  then show ?case by simp
next
  case (Cons s ss)
  from Cons.prems(1) obtain l where l: "sub_lookup tree c s = Inr l"
    and rec: "sub_list_inds tree c ss (acc @ indices l) = Inr inds"
    by (auto split: sum.splits)
  have "set (acc @ indices l) \<subseteq> S" using sub_lookup_in_range[OF assms l] Cons.prems(2) by simp
  from Cons.IH[OF rec this] show ?case .
qed

lemma get_tuple_inds_in_range:
  assumes "in_range tree S" and "index_tree wi = tree" and "\<not> does_return_ti wi"
    and "get_tuple_inds wi c sk = Inr (Host inds)"
  shows "set inds \<subseteq> S"
proof (cases sk)
  case (Sub s)
  then obtain l where "sub_lookup tree c s = Inr l" "inds = indices l"
    using assms(2,3,4) by (auto simp: get_tuple_inds_def split: sum.splits)
  then show ?thesis using sub_lookup_in_range[OF assms(1)] by simp
next
  case (SubList ss)
  then have "sub_list_inds tree c ss [] = Inr inds"
    using assms(2,3,4) by (auto simp: get_tuple_inds_def split: sum.splits)
  from sub_list_inds_in_range[OF assms(1) this] show ?thesis by simp
qed

lemma key_list_inds_in_range:
  assumes "in_range tree S" and "index_tree wi = tree" and "\<not> does_return_ti wi"
  shows "key_list_inds wi ks acc = Inr inds \<Longrightarrow> set acc \<subseteq> S \<Longrightarrow> set inds \<subseteq> S"
proof (induction ks arbitrary: acc)
  case Nil
  then show ?case by simp
next
  case (Cons k ks)
  have "\<exists>js. set js \<subseteq> S \<and> key_list_inds wi ks (acc @ js) = Inr inds"
  proof (cases k)
    case (Name c)
    with Cons.prems(1) obtain n where n: "map_of tree c = Some n"
      and rec: "key_list_inds wi ks (acc @ indices n) = Inr inds"
      using assms(2) by (auto split: option.splits)
    have "(c, n) \<in> set tree" using n by (simp add: map_of_SomeD)
    then have "set (indices n) \<subseteq> S" using assms(1) by (fastforce simp: in_range_def)
    then show ?thesis using rec by blast
  next
    case (Tuple c sk)
    with Cons.prems(1) obtain js where js: "get_tuple_inds wi c sk = Inr (Host js)"
      and rec: "key_list_inds wi ks (acc @ js) = Inr inds"
      by (auto split: sum.splits index_result.splits)
    from get_tuple_inds_in_range[OF assms js] rec show ?thesis by blast
  next
    case (KeyList x)
    then show ?thesis using Cons.prems(1) by simp
  qed
  then obtain js where "set js \<subseteq> S" "key_list_inds wi ks (acc @ js) = Inr inds" by blast
  with Cons.IH[of "acc @ js"] Cons.prems(2) show ?case by simp
qed

lemma resolve_in_range:
  assumes "in_range tree S" and "index_tree wi = tree" and "\<not> does_return_ti wi"
    and "windex_getitem wi k = Inr (Host inds)"
  shows "set inds \<subseteq> S"
proof (cases k)
  case (Name c)
  with assms(2,3,4) obtain n where n: "map_of tree c = Some n" "inds = indices n"
    by (auto simp: windex_getitem_def split: option.splits)
  then have "(c, n) \<in> set tree" by (simp add: map_of_SomeD)
  then show ?thesis using assms(1) n(2) by (fastforce simp: in_range_def)
next
  case (Tuple c sk)
  then have "get_tuple_inds wi c sk = Inr (Host inds)" using assms(4) by (simp add: windex_getitem_def)
  from get_tuple_inds_in_range[OF assms(1,2,3) this] show ?thesis .
next
  case (KeyList ks)
  then have "key_list_inds wi ks [] = Inr inds"
    using assms(3,4) by (auto simp: windex_getitem_def split: sum.splits)
  from key_list_inds_in_range[OF assms(1,2,3) this] show ?thesis by simp
qed

lemma allocated_iff:
  "allocated tree D ws w \<longleftrightarrow>
     w_shape w = ws \<and> map_option tshape (w_mem w) = Some [ws ! 0, ws ! 1, D] \<and>
     map_option (\<lambda>t. length (planes t)) (w_mem w) = Some D \<and>
     map_option index_tree (w_indices w) = Some tree"
  by (auto simp: allocated_def split: option.splits)

lemma allocatedD:
  assumes "allocated tree D ws w"
  obtains mem wi where "w_mem w = Some mem" "w_indices w = Some wi" "index_tree wi = tree"
    "tshape mem = [ws ! 0, ws ! 1, D]" "length (planes mem) = D" "w_shape w = ws"
  using assms by (auto simp: allocated_def split: option.splits)

lemma malloc_allocated:
  assumes "World_malloc g td w0 = (Inr (), w1)" and "well_keyed td"
  obtains tree D where "allocated tree D (w_shape w0) w1"
    "layout_ok (w_shape w0 ! 2) D td tree" "ti_consistent tree" "2 < length (w_shape w0)"
proof -
  from assms obtain tree mem where
    "w_indices w1 = Some \<lparr>index_tree = tree, does_return_ti = False\<rparr>"
    "w_mem w1 = Some mem" "w_shape w1 = w_shape w0" "2 < length (w_shape w0)"
    "tshape mem = [w_shape w0 ! 0, w_shape w0 ! 1, length (planes mem)]"
    "layout_ok (w_shape w0 ! 2) (length (planes mem)) td tree" "ti_consistent tree"
    by (rule World_malloc_layout)
  then show ?thesis using that[of tree "length (planes mem)"] by (simp add: allocated_def)
qed

lemma World_call_allocated:
  assumes "allocated tree D ws w"
  shows "allocated tree D ws (World_call op w)"
proof -
  from assms have m: "w_mem w \<noteq> None" by (auto simp: allocated_def split: option.splits)
  show ?thesis
  proof (cases op)
    case (Add_channel i t kw)
    then show ?thesis using assms m by (simp add: World_add_channel_def)
  next
    case (Add_channels cs)
    then show ?thesis using assms m by (simp add: World_add_channels_def)
  next
    case (Malloc g td)
    then show ?thesis using assms m by (simp add: World_malloc_def)
  next
    case (Getitem k)
    then show ?thesis using assms by (simp add: allocated_iff World_getitem_frame)
  next
    case (Setitem k v)
    then show ?thesis using assms by (simp add: allocated_iff World_setitem_frame)
  next
    case (Return_ti b)
    then show ?thesis using assms by (auto simp: allocated_def split: option.splits)
  qed
qed

lemma World_calls_allocated:
  "allocated tree D ws w \<Longrightarrow> allocated tree D ws (World_calls ops w)"
proof (induction ops arbitrary: w)
  case Nil
  then show ?case by (simp add: World_calls_def)
next
  case (Cons a ops)
  from Cons.IH[OF World_call_allocated[OF Cons.prems]] show ?case by (simp add: World_calls_def)
qed

section \<open>Zero data stays zero\<close>

lemma assign_planes_zero:
  assumes "\<forall>v \<in> set vs. v = z"
  shows "j < length ps \<Longrightarrow> j \<in> set inds \<or> ps ! j = z \<Longrightarrow> length vs = length inds \<Longrightarrow>
         assign_planes ps inds vs ! j = z"
  using assms
proof (induction ps inds vs rule: assign_planes.induct)
  case (1 ps i inds v vs)
  have v: "v = z" using "1.prems"(4) by simp
  have "j \<in> set inds \<or> ps[i := v] ! j = z"
    using "1.prems"(1,2) v by (cases "j = i") auto
  from "1.IH"[OF _ this] "1.prems" show ?case by simp
qed simp_all

lemma assign_depth_zero:
  assumes "assign_depth t inds v = Inr t'" and "\<forall>pl \<in> set (planes v). pl = z"
    and "j < length (planes t)" and "j \<in> set inds \<or> planes t ! j = z"
  shows "planes t' ! j = z"
proof (cases "length (planes v) = length inds")
  case True
  then have "planes t' = assign_planes (planes t) inds (planes v)"
    using assms(1) by (auto simp: assign_depth_def split: if_splits)
  then show ?thesis using assign_planes_zero[OF assms(2,3,4) True] by simp
next
  case False
  then have one: "length (planes v) = 1"
    and t': "planes t' = assign_planes (planes t) inds (replicate (length inds) (planes v ! 0))"
    using assms(1) by (auto simp: assign_depth_def split: if_splits)
  have "planes v ! 0 \<in> set (planes v)" using one by (cases "planes v") auto
  then have "\<forall>pl \<in> set (replicate (length inds) (planes v ! 0)). pl = z" using assms(2) by auto
  from assign_planes_zero[OF this assms(3,4)] t' show ?thesis by simp
qed

lemma zero_tensor_planes: "zero_tensor W H t \<Longrightarrow> \<forall>pl \<in> set (planes t). pl = zero_plane W H"
  by (simp add: zero_tensor_def)

lemma value_planes:
  "planes (if length (tshape t) = 2 then unsqueeze2 t else t) = planes t"
  by (simp add: unsqueeze2_def)

lemma transfer_subchannels_zero:
  assumes "zero_dict W H td"
  shows "transfer_subchannels c td st mem cd = (Inr mem', cd') \<Longrightarrow> j < length (planes mem) \<Longrightarrow>
         j \<in> (\<Union>l \<in> set st. set (indices (snd l))) \<or> planes mem ! j = zero_plane W H \<Longrightarrow>
         planes mem' ! j = zero_plane W H"
proof (induction st arbitrary: mem cd)
  case Nil
  then show ?case by simp
next
  case (Cons a st)
  obtain sc l where a: "a = (sc, l)" by (cases a)
  from Cons.prems(1) a obtain d t m1 cd1 where
    d: "map_of td c = Some (Dict d)" and t: "map_of d sc = Some (Tensor t)"
    and as: "assign_depth mem (indices l) (if length (tshape t) = 2 then unsqueeze2 t else t) = Inr m1"
    and rec: "transfer_subchannels c td st m1 cd1 = (Inr mem', cd')"
    by (auto split: option.splits chdata.splits sum.splits)
  have "(c, Dict d) \<in> set td" using d by (simp add: map_of_SomeD)
  with assms have "zero_data W H (snd (c, Dict d))" unfolding zero_dict_def by (rule bspec)
  then have "\<forall>kv \<in> set d. zero_data W H (snd kv)" by simp
  moreover have "(sc, Tensor t) \<in> set d" using t by (simp add: map_of_SomeD)
  ultimately have "zero_data W H (snd (sc, Tensor t))" by (rule bspec)
  then have "zero_tensor W H t" by simp
  then have z: "\<forall>pl \<in> set (planes (if length (tshape t) = 2 then unsqueeze2 t else t)). pl = zero_plane W H"
    unfolding value_planes by (rule zero_tensor_planes)
  have len: "length (planes m1) = length (planes mem)" using assign_depth_shape[OF as] by simp
  have "j \<in> (\<Union>l \<in> set st. set (indices (snd l))) \<or> planes m1 ! j = zero_plane W H"
  proof (cases "j \<in> (\<Union>l \<in> set st. set (indices (snd l)))")
    case True
    then show ?thesis by simp
  next
    case False
    then have "j \<in> set (indices l) \<or> planes mem ! j = zero_plane W H"
      using Cons.prems(3) a by auto
    from assign_depth_zero[OF as z Cons.prems(2) this] show ?thesis by simp
  qed
  from Cons.IH[OF rec _ this] Cons.prems(2) len show ?case by simp
qed

lemma covered_Cons:
  "covered ((c, n) # tree) =
     (case subchannels n of None \<Rightarrow> set (indices n)
      | Some st \<Rightarrow> (\<Union>l \<in> set st. set (indices (snd l)))) \<union> covered tree"
  by (cases "subchannels n") (simp_all add: covered_def)

lemma transfer_to_mem_zero:
  assumes "zero_dict W H td"
  shows "transfer_to_mem mem td tree cd = (Inr mem', cd') \<Longrightarrow> j < length (planes mem) \<Longrightarrow>
         j \<in> covered tree \<or> planes mem ! j = zero_plane W H \<Longrightarrow>
         planes mem' ! j = zero_plane W H"
proof (induction tree arbitrary: mem cd)
  case Nil
  then show ?case by (simp add: covered_def)
next
  case (Cons a tree)
  obtain c n where a: "a = (c, n)" by (cases a)
  have "\<exists>m1 cd1. transfer_to_mem m1 td tree cd1 = (Inr mem', cd') \<and>
          length (planes m1) = length (planes mem) \<and>
          (j \<in> covered tree \<or> planes m1 ! j = zero_plane W H)"
  proof (cases "subchannels n")
    case None
    from Cons.prems(1) a None obtain t m1 cd1 where
      t: "map_of td c = Some (Tensor t)"
      and as: "assign_depth mem (indices n) (if length (tshape t) = 2 then unsqueeze2 t else t) = Inr m1"
      and rec: "transfer_to_mem m1 td tree cd1 = (Inr mem', cd')"
      by (auto split: option.splits chdata.splits sum.splits)
    have "(c, Tensor t) \<in> set td" using t by (simp add: map_of_SomeD)
    with assms have "zero_data W H (snd (c, Tensor t))" unfolding zero_dict_def by (rule bspec)
    then have "zero_tensor W H t" by simp
    then have z: "\<forall>pl \<in> set (planes (if length (tshape t) = 2 then unsqueeze2 t else t)). pl = zero_plane W H"
      unfolding value_planes by (rule zero_tensor_planes)
    have "j \<in> covered tree \<or> planes m1 ! j = zero_plane W H"
    proof (cases "j \<in> covered tree")
      case True
      then show ?thesis by simp
    next
      case False
      then have "j \<in> set (indices n) \<or> planes mem ! j = zero_plane W H"
        using Cons.prems(3) a None by (auto simp: covered_Cons)
      from assign_depth_zero[OF as z Cons.prems(2) this] show ?thesis by simp
    qed
    then show ?thesis using rec assign_depth_shape[OF as] by blast
  next
    case (Some st)
    from Cons.prems(1) a Some obtain m1 cd1 cd2 where
      sub: "transfer_subchannels c td st mem cd = (Inr m1, cd1)"
      and rec: "transfer_to_mem m1 td tree cd2 = (Inr mem', cd')"
      by (auto split: option.splits sum.splits prod.splits)
    have "j \<in> covered tree \<or> planes m1 ! j = zero_plane W H"
    proof (cases "j \<in> covered tree")
      case True
      then show ?thesis by simp
    next
      case False
      then have "j \<in> (\<Union>l \<in> set st. set (indices (snd l))) \<or> planes mem ! j = zero_plane W H"
        using Cons.prems(3) a Some by (auto simp: covered_Cons)
      from transfer_subchannels_zero[OF assms sub Cons.prems(2) this] show ?thesis by simp
    qed
    then show ?thesis using rec transfer_subchannels_shape[OF sub] by blast
  qed
  then obtain m1 cd1 where rec: "transfer_to_mem m1 td tree cd1 = (Inr mem', cd')"
    and len: "length (planes m1) = length (planes mem)"
    and z: "j \<in> covered tree \<or> planes m1 ! j = zero_plane W H"
    by blast
  from Cons.IH[OF rec _ z] Cons.prems(2) len show ?case by simp
qed

lemma covered_layout:
  assumes "layout_ok start D td tree"
  shows "covered tree = {start..<D}"
proof -
  have rel: "list_all2 (\<lambda>e kv. sub_ok (snd e) (snd kv)) tree td"
    and cc: "concat (ranges tree) = [start..<D]"
    using assms by (simp_all add: layout_ok_def)
  have each: "(case subchannels (snd e) of None \<Rightarrow> set (indices (snd e))
               | Some st \<Rightarrow> (\<Union>l \<in> set st. set (indices (snd l)))) = set (indices (snd e))"
    if e: "e \<in> set tree" for e
  proof (cases "subchannels (snd e)")
    case None
    then show ?thesis by simp
  next
    case (Some st)
    from e obtain i where i: "i < length tree" "e = tree ! i" by (auto simp: in_set_conv_nth)
    with rel have ok: "sub_ok (snd e) (snd (td ! i))" by (simp add: list_all2_conv_all_nth)
    have "concat (ranges st) = indices (snd e)"
      using ok Some by (cases "snd (td ! i)") simp_all
    then have "set (indices (snd e)) = set (concat (ranges st))" by simp
    also have "\<dots> = (\<Union>l \<in> set st. set (indices (snd l)))" by (simp add: ranges_def)
    finally show ?thesis using Some by simp
  qed
  have "covered tree = (\<Union>e \<in> set tree. set (indices (snd e)))"
    unfolding covered_def using each by simp
  also have "\<dots> = set (concat (ranges tree))" by (simp add: ranges_def)
  finally show ?thesis unfolding cc by simp
qed

lemma World_malloc_zero:
  assumes "World_malloc g td w0 = (Inr (), w1)" and "well_keyed td"
    and "zero_dict (w_shape w0 ! 0) (w_shape w0 ! 1) td"
  obtains tree D where "allocated tree D (w_shape w0) w1"
    "layout_ok (w_shape w0 ! 2) D td tree" "2 < length (w_shape w0)"
    "\<forall>j. w_shape w0 ! 2 \<le> j \<and> j < D \<longrightarrow>
         planes (the (w_mem w1)) ! j = zero_plane (w_shape w0 ! 0) (w_shape w0 ! 1)"
proof -
  from assms(1) obtain tree D mem cd where
    l: "2 < length (w_shape w0)" and
    loop: "World_index_channels_loop (w_shape w0) td (w_shape w0 ! 2) [] = Inr (tree, D)"
    and tr: "transfer_to_mem (torch_empty g (w_shape w0 ! 0) (w_shape w0 ! 1) D)
               td tree (w_channels w0) = (Inr mem, cd)"
    and w1: "w1 = w0\<lparr>w_mem := Some mem, w_channels := cd,
            w_indices := Some \<lparr>index_tree = tree, does_return_ti = False\<rparr>\<rparr>"
    by (rule World_malloc_Inr)
  have sh: "tshape mem = [w_shape w0 ! 0, w_shape w0 ! 1, D]" "length (planes mem) = D"
    using transfer_to_mem_shape[OF tr] by (simp_all add: torch_empty_def)
  from World_layout[OF loop assms(2)] have lay: "layout_ok (w_shape w0 ! 2) D td tree" by simp
  have al: "allocated tree D (w_shape w0) w1" using w1 sh by (simp add: allocated_def)
  have "planes mem ! j = zero_plane (w_shape w0 ! 0) (w_shape w0 ! 1)"
    if "w_shape w0 ! 2 \<le> j \<and> j < D" for j
  proof -
    have "j \<in> covered tree" using covered_layout[OF lay] that by simp
    moreover have "j < length (planes (torch_empty g (w_shape w0 ! 0) (w_shape w0 ! 1) D))"
      using that by (simp add: torch_empty_def)
    ultimately show ?thesis using transfer_to_mem_zero[OF assms(3) tr] by blast
  qed
  then show ?thesis using that[OF al lay l] w1 by simp
qed

lemma touched_Cons: "touched tree (op # ops) = touched tree [op] \<union> touched tree ops"
  by (cases op) simp_all

lemma World_call_planes:
  assumes "allocated tree D ws w" and "j \<notin> touched tree [op]"
  shows "planes (the (w_mem (World_call op w))) ! j = planes (the (w_mem w)) ! j"
proof -
  from assms(1) obtain mem wi where mem: "w_mem w = Some mem" and wi: "w_indices w = Some wi"
    and tree: "index_tree wi = tree"
    by (rule allocatedD)
  show ?thesis
  proof (cases op)
    case (Add_channel i t kw)
    then show ?thesis using mem by (simp add: World_add_channel_def)
  next
    case (Add_channels cs)
    then show ?thesis using mem by (simp add: World_add_channels_def)
  next
    case (Malloc g td)
    then show ?thesis using mem by (simp add: World_malloc_def)
  next
    case (Getitem k)
    then show ?thesis by (simp add: World_getitem_frame)
  next
    case (Return_ti b)
    then show ?thesis by simp
  next
    case (Setitem k v)
    have eq: "return_ti False wi = \<lparr>index_tree = tree, does_return_ti = False\<rparr>"
      using tree by (simp add: return_ti_False_eq)
    show ?thesis
    proof (cases "windex_getitem (return_ti False wi) k")
      case (Inl e)
      then show ?thesis using Setitem World_setitem_fail[OF mem wi Inl] by simp
    next
      case (Inr r)
      then obtain inds where r: "windex_getitem (return_ti False wi) k = Inr (Host inds)"
        using windex_getitem_host[of "return_ti False wi" k r] by auto
      have nt: "j \<notin> set inds" using assms(2) Setitem r eq by simp
      show ?thesis
      proof (cases inds rule: length_cases)
        case 1
        then show ?thesis using Setitem World_setitem_empty[OF mem wi] r by simp
      next
        case (2 i)
        define val' where "val' = (if length (tshape v) = 3 then squeeze2 v else v)"
        have "snd (World_setitem k v w) = w \<or>
              (\<exists>p. snd (World_setitem k v w) = w\<lparr>w_mem := Some (mem\<lparr>planes := (planes mem)[i := p]\<rparr>)\<rparr>)"
          unfolding World_setitem_single[OF mem wi r[unfolded 2] val'_def]
          by (auto split: list.splits)
        moreover have "j \<noteq> i" using nt 2 by simp
        ultimately show ?thesis using Setitem mem by auto
      next
        case 3
        have "w_mem (snd (World_setitem k v w)) = w_mem w"
          unfolding World_setitem_multi[OF mem wi r 3]
          by (simp split: sum.splits)
        then show ?thesis using Setitem by simp
      qed
    qed
  qed
qed

lemma World_calls_planes:
  "allocated tree D ws w \<Longrightarrow> j \<notin> touched tree ops \<Longrightarrow>
     planes (the (w_mem (World_calls ops w))) ! j = planes (the (w_mem w)) ! j"
proof (induction ops arbitrary: w)
  case Nil
  then show ?case by (simp add: World_calls_def)
next
  case (Cons op ops)
  have j: "j \<notin> touched tree [op]" "j \<notin> touched tree ops"
    using Cons.prems(2) touched_Cons[of tree op ops] by auto
  have "planes (the (w_mem (World_calls ops (World_call op w)))) ! j
          = planes (the (w_mem (World_call op w))) ! j"
    by (rule Cons.IH[OF World_call_allocated[OF Cons.prems(1)] j(2)])
  also have "\<dots> = planes (the (w_mem w)) ! j"
    by (rule World_call_planes[OF Cons.prems(1) j(1)])
  finally show ?case by (simp add: World_calls_def)
qed

lemma Substrate_call_allocated: "s_mem s \<noteq> None \<Longrightarrow> Substrate_call op s = s"
  by (cases op)
     (auto simp: Substrate_add_channel_def Substrate_add_channels_def Substrate_malloc_def
        Substrate_setitem_def)

lemma Substrate_calls_allocated: "s_mem s \<noteq> None \<Longrightarrow> Substrate_calls ops s = s"
proof (induction ops)
  case Nil
  then show ?case by (simp add: Substrate_calls_def)
next
  case (Cons op ops)
  then show ?case using Substrate_call_allocated[of s op] by (simp add: Substrate_calls_def)
qed

lemma Substrate_malloc_zero:
  assumes "Substrate_malloc td s0 = (Inr (), s1)"
    and "zero_dict (s_shape s0 ! 0) (s_shape s0 ! 1) td"
  shows "\<exists>D. s_mem s1 = Some \<lparr>tshape = [1, D, s_shape s0 ! 0, s_shape s0 ! 1],
                               planes = replicate D (zero_plane (s_shape s0 ! 0) (s_shape s0 ! 1))\<rparr>"
proof -
  let ?W = "s_shape s0 ! 0" and ?H = "s_shape s0 ! 1"
  from assms(1) obtain tree D s' mem cd where
    tr: "transfer_to_mem (torch_zeros ?W ?H D) td tree (s_channels s0) = (Inr mem, cd)"
    and s1: "s_mem s1 = Some (permute_unsqueeze mem)"
    by (rule Substrate_malloc_Inr)
  have sh: "tshape mem = [?W, ?H, D]" "length (planes mem) = D"
    using transfer_to_mem_shape[OF tr] by (simp_all add: torch_zeros_def)
  have "planes mem ! j = zero_plane ?W ?H" if "j < D" for j
  proof -
    have "j < length (planes (torch_zeros ?W ?H D :: 'a tensor))" using that by (simp add: torch_zeros_def)
    moreover have "planes (torch_zeros ?W ?H D :: 'a tensor) ! j = zero_plane ?W ?H"
      using that by (simp add: torch_zeros_def)
    ultimately show ?thesis using transfer_to_mem_zero[OF assms(2) tr] by blast
  qed
  then have "planes mem = replicate D (zero_plane ?W ?H)"
    using sh(2) by (intro nth_equalityI) simp_all
  then have "permute_unsqueeze mem = \<lparr>tshape = [1, D, ?W, ?H], planes = replicate D (zero_plane ?W ?H)\<rparr>"
    using sh(1) by (simp add: permute_unsqueeze_def)
  then show ?thesis using s1 by auto
qed

section \<open>The claims\<close>

text \<open>
  Claim C1. Whenever allocation succeeds on a dictionary of tensors without repeated
  keys, the index tree it builds is a layout of the channels from the reserved prefix
  \<^verbatim>\<open>self.shape[2]\<close> to the depth of the buffer: every channel and every sub-channel has
  a contiguous run of slots, the runs of the top-level channels are pairwise disjoint
  and, in registration order, exactly the slots from the prefix to the total depth, and
  the total depth minus the prefix is the sum of the channels' depths. This holds for
  \<^verbatim>\<open>World.malloc\<close> and for \<^verbatim>\<open>Substrate.malloc\<close>.
\<close>

theorem layout_partition:
  assumes "well_keyed tensor_dict"
  shows "(World_malloc g tensor_dict w = (Inr (), w') \<longrightarrow>
            w_mem w' \<noteq> None \<and> w_indices w' \<noteq> None \<and>
            layout_ok (w_shape w ! 2) (tshape (the (w_mem w')) ! 2) tensor_dict
              (index_tree (the (w_indices w')))) \<and>
         (Substrate_malloc tensor_dict s = (Inr (), s') \<longrightarrow>
            s_mem s' \<noteq> None \<and> s_windex s' \<noteq> None \<and>
            layout_ok (s_shape s ! 2) (tshape (the (s_mem s')) ! 1) tensor_dict
              (the (s_windex s')))"
proof (intro conjI impI)
  assume m: "World_malloc g tensor_dict w = (Inr (), w')"
  from m obtain tree total_depth mem cd where
    loop: "World_index_channels_loop (w_shape w) tensor_dict (w_shape w ! 2) [] = Inr (tree, total_depth)"
    and tr: "transfer_to_mem (torch_empty g (w_shape w ! 0) (w_shape w ! 1) total_depth)
               tensor_dict tree (w_channels w) = (Inr mem, cd)"
    and w': "w' = w\<lparr>w_mem := Some mem, w_channels := cd,
            w_indices := Some \<lparr>index_tree = tree, does_return_ti = False\<rparr>\<rparr>"
    by (rule World_malloc_Inr)
  have sh: "tshape mem = [w_shape w ! 0, w_shape w ! 1, total_depth]"
    using transfer_to_mem_shape[OF tr] by (simp add: torch_empty_def)
  show "w_mem w' \<noteq> None" "w_indices w' \<noteq> None" using w' by simp_all
  show "layout_ok (w_shape w ! 2) (tshape (the (w_mem w')) ! 2) tensor_dict
              (index_tree (the (w_indices w')))"
    using World_layout[OF loop assms] w' sh by simp
next
  assume m: "Substrate_malloc tensor_dict s = (Inr (), s')"
  from m obtain tree total_depth s1 mem cd where
    loop: "Substrate_index_channels_loop tensor_dict (s_shape s ! 2) [] s = (Inr (tree, total_depth), s1)"
    and tr: "transfer_to_mem (torch_zeros (s_shape s ! 0) (s_shape s ! 1) total_depth)
               tensor_dict tree (s_channels s) = (Inr mem, cd)"
    and s': "s_mem s' = Some (permute_unsqueeze mem)" "s_windex s' = Some tree"
    by (rule Substrate_malloc_Inr)
  have sh: "tshape mem ! 2 = total_depth"
    using transfer_to_mem_shape[OF tr] by (simp add: torch_zeros_def)
  show "s_mem s' \<noteq> None" "s_windex s' \<noteq> None" using s' by simp_all
  show "layout_ok (s_shape s ! 2) (tshape (the (s_mem s')) ! 1) tensor_dict (the (s_windex s'))"
    using Substrate_layout[OF loop assms] s' sh by (simp add: permute_unsqueeze_def)
qed

theorem layout_partition_witness:
  "well_keyed ex_tensor_dict \<and>
   fst (World_malloc (\<lambda>k x y. 7) ex_tensor_dict ex_world) = Inr () \<and>
   fst (Substrate_malloc ex_tensor_dict ex_substrate) = Inr () \<and>
   layout_ok 0 4 ex_tensor_dict ex_tree \<and>
   layout_ok 0 4 ex_tensor_dict ex_tree_host"
proof -
  let ?g = "\<lambda>(k::nat) (x::nat) (y::nat). 7::int"
  let ?w = "snd (World_malloc ?g ex_tensor_dict ex_world)"
  let ?s = "snd (Substrate_malloc ex_tensor_dict ex_substrate)"
  have wk: "well_keyed ex_tensor_dict"
    by (simp add: well_keyed_def ex_tensor_dict_def)
  note em = ex_malloc[of ?g]
  have m1: "World_malloc ?g ex_tensor_dict ex_world = (Inr (), ?w)"
    using em by (simp add: prod_eq_iff)
  have m2: "Substrate_malloc ex_tensor_dict ex_substrate = (Inr (), ?s)"
    using ex_substrate_malloc by (simp add: prod_eq_iff)
  have t1: "index_tree (the (w_indices ?w)) = ex_tree" "tshape (the (w_mem ?w)) ! 2 = 4"
    using em by auto
  have t2: "the (s_windex ?s) = ex_tree_host" "tshape (the (s_mem ?s)) ! 1 = 4"
    using ex_substrate_malloc by auto
  from layout_partition[OF wk, of ?g ex_world ?w ex_substrate ?s] m1 m2 t1 t2
  have "layout_ok 0 4 ex_tensor_dict ex_tree \<and> layout_ok 0 4 ex_tensor_dict ex_tree_host"
    by (simp add: ex_world_eq ex_substrate_eq)
  with wk em ex_substrate_malloc show ?thesis by simp
qed

text \<open>
  Claim C3. In the 4 x 4 scenario (channel \<^verbatim>\<open>a\<close> of shape (4, 4) registered before the
  group \<^verbatim>\<open>b\<close> of \<^verbatim>\<open>x\<close> of shape (4, 4, 2) and \<^verbatim>\<open>y\<close> of shape (4, 4, 1), reserved
  prefix 0), \<^verbatim>\<open>World.malloc\<close> succeeds whatever the uninitialised buffer holds, the index
  tree maps \<^verbatim>\<open>a\<close> to [0], \<^verbatim>\<open>b\<close> to [1, 2, 3], \<^verbatim>\<open>b.x\<close> to [1, 2] and \<^verbatim>\<open>b.y\<close> to [3],
  and the buffer has shape (4, 4, 4): the total depth is 4. \<^verbatim>\<open>Substrate.malloc\<close> builds
  the same tree without the device copies, and a buffer of shape (1, 4, 4, 4).
\<close>

theorem scenario_index_tree:
  "w_shape ex_world ! 2 = 0 \<and>
   fst (World_malloc g ex_tensor_dict ex_world) = Inr () \<and>
   map_option index_tree (w_indices (snd (World_malloc g ex_tensor_dict ex_world))) =
     Some [(''a'', \<lparr>indices = [0], indices_ti = Some [0], subchannels = None\<rparr>),
           (''b'', \<lparr>indices = [1, 2, 3], indices_ti = Some [1, 2, 3],
                    subchannels = Some [(''x'', \<lparr>indices = [1, 2], indices_ti = Some [1, 2]\<rparr>),
                                        (''y'', \<lparr>indices = [3], indices_ti = Some [3]\<rparr>)]\<rparr>)] \<and>
   map_option tshape (w_mem (snd (World_malloc g ex_tensor_dict ex_world))) = Some [4, 4, 4] \<and>
   fst (Substrate_malloc ex_tensor_dict ex_substrate) = Inr () \<and>
   s_windex (snd (Substrate_malloc ex_tensor_dict ex_substrate)) =
     Some [(''a'', \<lparr>indices = [0], indices_ti = None, subchannels = None\<rparr>),
           (''b'', \<lparr>indices = [1, 2, 3], indices_ti = None,
                    subchannels = Some [(''x'', \<lparr>indices = [1, 2], indices_ti = None\<rparr>),
                                        (''y'', \<lparr>indices = [3], indices_ti = None\<rparr>)]\<rparr>)] \<and>
   map_option tshape (s_mem (snd (Substrate_malloc ex_tensor_dict ex_substrate))) = Some [1, 4, 4, 4]"
  using ex_malloc[of g] ex_substrate_malloc
  by (simp add: ex_world_eq ex_tree_def ex_tree_host_def)

text \<open>
  Claim C4. In host mode, a list reference whose elements are names or pairs that each
  resolve by themselves resolves to the concatenation, in the order of the list, of what
  the elements resolve to.
\<close>

theorem list_resolution:
  assumes "\<not> does_return_ti wi"
    and "\<forall>k \<in> set ks. is_atom k \<and> \<not> isl (windex_getitem wi k)"
  shows "windex_getitem wi (KeyList ks) =
           Inr (Host (concat (map (\<lambda>k. host_inds (windex_getitem wi k)) ks)))"
  using key_list_inds_concat[OF assms, of "[]"] assms(1)
  by (simp add: windex_getitem_def)

theorem list_resolution_witness:
  "\<not> does_return_ti \<lparr>index_tree = ex_tree, does_return_ti = False\<rparr> \<and>
   is_atom (Tuple ''b'' (Sub ''y'')) \<and> is_atom (Name ''a'') \<and> is_atom (Tuple ''b'' (Sub ''x'')) \<and>
   windex_getitem \<lparr>index_tree = ex_tree, does_return_ti = False\<rparr> (Tuple ''b'' (Sub ''y''))
     = Inr (Host [3]) \<and>
   windex_getitem \<lparr>index_tree = ex_tree, does_return_ti = False\<rparr> (Name ''a'') = Inr (Host [0]) \<and>
   windex_getitem \<lparr>index_tree = ex_tree, does_return_ti = False\<rparr> (Tuple ''b'' (Sub ''x''))
     = Inr (Host [1, 2]) \<and>
   windex_getitem \<lparr>index_tree = ex_tree, does_return_ti = False\<rparr>
     (KeyList [Tuple ''b'' (Sub ''y''), Name ''a'', Tuple ''b'' (Sub ''x'')]) = Inr (Host [3, 0, 1, 2])"
proof -
  let ?wi = "\<lparr>index_tree = ex_tree, does_return_ti = False\<rparr>"
  let ?ks = "[Tuple ''b'' (Sub ''y''), Name ''a'', Tuple ''b'' (Sub ''x'')]"
  have h1: "\<not> does_return_ti ?wi" by simp
  have h2: "\<forall>k \<in> set ?ks. is_atom k \<and> \<not> isl (windex_getitem ?wi k)"
    by (simp add: windex_getitem_def get_tuple_inds_def sub_lookup_def ex_tree_def)
  have "concat (map (\<lambda>k. host_inds (windex_getitem ?wi k)) ?ks) = [3, 0, 1, 2]"
    by (simp add: windex_getitem_def get_tuple_inds_def sub_lookup_def ex_tree_def)
  with list_resolution[OF h1 h2] h1 show ?thesis
    by (simp add: windex_getitem_def get_tuple_inds_def sub_lookup_def ex_tree_def)
qed






text \<open>
  Claim C7. After a successful allocation and any further calls, registering a channel,
  registering a dictionary of channels and allocating again each fail with
  \<^verbatim>\<open>AlreadyAllocated\<close> and leave the object exactly as it was: registry, index tree and
  buffer included. This holds for \<^verbatim>\<open>World\<close> and for \<^verbatim>\<open>Substrate\<close>.
\<close>

theorem lifecycle_guard:
  "(World_malloc g0 td0 w0 = (Inr (), w1) \<and> w = World_calls ops w1 \<longrightarrow>
      World_add_channel ident ti_dtype kwargs w = (Inl AlreadyAllocated, w) \<and>
      World_add_channels chans w = (Inl AlreadyAllocated, w) \<and>
      World_malloc g td w = (Inl AlreadyAllocated, w)) \<and>
   (Substrate_malloc td0 s0 = (Inr (), s1) \<and> s = Substrate_calls sops s1 \<longrightarrow>
      Substrate_add_channel ident ti_dtype kwargs s = (Inl AlreadyAllocated, s) \<and>
      Substrate_add_channels chans s = (Inl AlreadyAllocated, s) \<and>
      Substrate_malloc td s = (Inl AlreadyAllocated, s))"
proof (intro conjI impI)
  assume a: "World_malloc g0 td0 w0 = (Inr (), w1) \<and> w = World_calls ops w1"
  then have "w_mem w1 \<noteq> None" by (auto elim: World_malloc_Inr)
  then have m: "w_mem w \<noteq> None" using a by (simp add: World_calls_mem)
  show "World_add_channel ident ti_dtype kwargs w = (Inl AlreadyAllocated, w)"
    using m by (simp add: World_add_channel_def)
  show "World_add_channels chans w = (Inl AlreadyAllocated, w)"
    using m by (simp add: World_add_channels_def)
  show "World_malloc g td w = (Inl AlreadyAllocated, w)"
    using m by (simp add: World_malloc_def)
next
  assume a: "Substrate_malloc td0 s0 = (Inr (), s1) \<and> s = Substrate_calls sops s1"
  then have "s_mem s1 \<noteq> None" by (auto elim: Substrate_malloc_Inr)
  then have m: "s_mem s \<noteq> None" using a by (simp add: Substrate_calls_mem)
  show "Substrate_add_channel ident ti_dtype kwargs s = (Inl AlreadyAllocated, s)"
    using m by (simp add: Substrate_add_channel_def)
  show "Substrate_add_channels chans s = (Inl AlreadyAllocated, s)"
    using m by (simp add: Substrate_add_channels_def)
  show "Substrate_malloc td s = (Inl AlreadyAllocated, s)"
    using m by (simp add: Substrate_malloc_def)
qed

theorem lifecycle_guard_witness:
  "fst (World_malloc (\<lambda>k x y. 7) ex_tensor_dict ex_world) = Inr () \<and>
   fst (Substrate_malloc ex_tensor_dict ex_substrate) = Inr () \<and>
   fst (World_add_channel ''c'' (PType F32) []
          (World_calls [Getitem (Name ''a''), Add_channel ''d'' (PType F32) []]
             (snd (World_malloc (\<lambda>k x y. 7) ex_tensor_dict ex_world)))) = Inl AlreadyAllocated \<and>
   fst (World_malloc (\<lambda>k x y. 7) ex_tensor_dict
          (World_calls [Getitem (Name ''a''), Add_channel ''d'' (PType F32) []]
             (snd (World_malloc (\<lambda>k x y. 7) ex_tensor_dict ex_world)))) = Inl AlreadyAllocated \<and>
   fst (Substrate_add_channel ''c'' (PType F32) []
          (Substrate_calls [SMalloc ex_tensor_dict]
             (snd (Substrate_malloc ex_tensor_dict ex_substrate)))) = Inl AlreadyAllocated \<and>
   fst (Substrate_malloc ex_tensor_dict
          (Substrate_calls [SMalloc ex_tensor_dict]
             (snd (Substrate_malloc ex_tensor_dict ex_substrate)))) = Inl AlreadyAllocated"
proof -
  let ?g = "\<lambda>(k::nat) (x::nat) (y::nat). 7::int"
  let ?w1 = "snd (World_malloc ?g ex_tensor_dict ex_world)"
  let ?s1 = "snd (Substrate_malloc ex_tensor_dict ex_substrate)"
  let ?ops = "[Getitem (Name ''a''), Add_channel ''d'' (PType F32) []]"
  let ?sops = "[SMalloc ex_tensor_dict]"
  note em = ex_malloc[of ?g]
  have m1: "World_malloc ?g ex_tensor_dict ex_world = (Inr (), ?w1)"
    using em by (simp add: prod_eq_iff)
  have m2: "Substrate_malloc ex_tensor_dict ex_substrate = (Inr (), ?s1)"
    using ex_substrate_malloc by (simp add: prod_eq_iff)
  from lifecycle_guard[of ?g ex_tensor_dict ex_world ?w1 "World_calls ?ops ?w1" ?ops
         "''c''" "PType F32" "[]" _ ?g ex_tensor_dict ex_substrate ?s1
         "Substrate_calls ?sops ?s1" ?sops] m1 m2 em ex_substrate_malloc
  show ?thesis by simp
qed




text \<open>
  Claim C10 fails on the code. \<^verbatim>\<open>World.__getitem__\<close> and \<^verbatim>\<open>World.__setitem__\<close> save the
  flag of the resolver, clear it, resolve the reference and only then set the flag back.
  When the resolution raises, the flag stays cleared. In the 4 x 4 scenario, after
  allocation and \<^verbatim>\<open>world.indices.return_ti(True)\<close>, reading or writing the unknown
  channel \<^verbatim>\<open>zz\<close> raises \<^verbatim>\<open>KeyError\<close> and leaves the flag \<^verbatim>\<open>False\<close>.
\<close>

theorem flag_lost_on_failed_read:
  "map_option does_return_ti
     (w_indices (World_call (Return_ti True) (snd (World_malloc g ex_tensor_dict ex_world))))
     = Some True \<and>
   fst (World_getitem (Name ''zz'')
          (World_call (Return_ti True) (snd (World_malloc g ex_tensor_dict ex_world))))
     = Inl (KeyError ''zz'') \<and>
   map_option does_return_ti
     (w_indices (snd (World_getitem (Name ''zz'')
          (World_call (Return_ti True) (snd (World_malloc g ex_tensor_dict ex_world))))))
     = Some False \<and>
   fst (World_setitem (Name ''zz'') v
          (World_call (Return_ti True) (snd (World_malloc g ex_tensor_dict ex_world))))
     = Inl (KeyError ''zz'') \<and>
   map_option does_return_ti
     (w_indices (snd (World_setitem (Name ''zz'') v
          (World_call (Return_ti True) (snd (World_malloc g ex_tensor_dict ex_world))))))
     = Some False"
proof -
  let ?w1 = "snd (World_malloc g ex_tensor_dict ex_world)"
  let ?w = "World_call (Return_ti True) ?w1"
  from ex_malloc[of g] obtain wi mem where
    wi: "w_indices ?w1 = Some wi" "index_tree wi = ex_tree" and mem: "w_mem ?w1 = Some mem"
    by auto
  have w: "w_mem ?w = Some mem" "w_indices ?w = Some (return_ti True wi)"
    using wi mem by simp_all
  have r: "windex_getitem (return_ti False (return_ti True wi)) (Name ''zz'') = Inl (KeyError ''zz'')"
    using wi by (simp add: windex_getitem_def ex_tree_def)
  have g: "World_getitem (Name ''zz'') ?w =
             (Inl (KeyError ''zz''), ?w\<lparr>w_indices := Some (return_ti False (return_ti True wi))\<rparr>)"
    unfolding World_getitem_alloc[OF w] r by simp
  have s: "World_setitem (Name ''zz'') v ?w =
             (Inl (KeyError ''zz''), ?w\<lparr>w_indices := Some (return_ti False (return_ti True wi))\<rparr>)"
    by (rule World_setitem_fail[OF w r])
  show ?thesis unfolding g s using w(2) by (simp del: World_call.simps)
qed




subsection \<open>Zero initialisation\<close>

text \<open>
  Claim C8. The tensors of a fresh field hold zeros, which is the hypothesis
  \<open>zero_dict\<close> on the dictionary that \<^verbatim>\<open>malloc\<close> reads. After a successful
  \<^verbatim>\<open>World.malloc\<close> and any further calls, a read that resolves to the slots \<open>inds\<close>
  succeeds with a tensor of shape (W, H, length inds), and every depth-slice of it whose slot
  no write has been addressed to is zero: the buffer comes from \<^verbatim>\<open>torch.empty\<close>, and
  the transfer of the field overwrites each slot of each channel and sub-channel. After a
  successful \<^verbatim>\<open>Substrate.malloc\<close> and any further calls the whole buffer, of shape
  (1, D, W, H), is zero.
\<close>

theorem unwritten_slots_read_zero:
  assumes "zero_dict W H td"
  shows "(World_malloc g td w0 = (Inr (), w1) \<and> well_keyed td \<and>
          W = w_shape w0 ! 0 \<and> H = w_shape w0 ! 1 \<and> w = World_calls ops w1 \<and>
          windex_getitem (return_ti False (the (w_indices w))) k = Inr (Host inds) \<longrightarrow>
            (\<exists>t. fst (World_getitem k w) = Inr t \<and> tshape t = [W, H, length inds] \<and>
                 length (planes t) = length inds \<and>
                 (\<forall>n < length inds. inds ! n \<notin> touched (index_tree (the (w_indices w))) ops \<longrightarrow>
                    planes t ! n = zero_plane W H))) \<and>
         (Substrate_malloc td s0 = (Inr (), s1) \<and> W = s_shape s0 ! 0 \<and> H = s_shape s0 ! 1 \<and>
          s = Substrate_calls sops s1 \<longrightarrow>
            (\<exists>D. s_mem s = Some \<lparr>tshape = [1, D, W, H], planes = replicate D (zero_plane W H)\<rparr>))"
proof (intro conjI impI)
  assume a: "World_malloc g td w0 = (Inr (), w1) \<and> well_keyed td \<and>
          W = w_shape w0 ! 0 \<and> H = w_shape w0 ! 1 \<and> w = World_calls ops w1 \<and>
          windex_getitem (return_ti False (the (w_indices w))) k = Inr (Host inds)"
  then have m: "World_malloc g td w0 = (Inr (), w1)" and wk: "well_keyed td"
    and W: "W = w_shape w0 ! 0" and H: "H = w_shape w0 ! 1" and w: "w = World_calls ops w1"
    and r0: "windex_getitem (return_ti False (the (w_indices w))) k = Inr (Host inds)"
    by blast+
  have z: "zero_dict (w_shape w0 ! 0) (w_shape w0 ! 1) td" using assms W H by simp
  from World_malloc_zero[OF m wk z] obtain tree D where
    a1: "allocated tree D (w_shape w0) w1" and lay: "layout_ok (w_shape w0 ! 2) D td tree"
    and zero: "\<forall>j. w_shape w0 ! 2 \<le> j \<and> j < D \<longrightarrow> planes (the (w_mem w1)) ! j = zero_plane W H"
    using W H by metis
  from World_calls_allocated[OF a1] w have aw: "allocated tree D (w_shape w0) w" by simp
  then obtain mem wi where mem: "w_mem w = Some mem" and wi: "w_indices w = Some wi"
    and tree: "index_tree wi = tree" and sh: "tshape mem = [w_shape w0 ! 0, w_shape w0 ! 1, D]"
    and lp: "length (planes mem) = D"
    by (rule allocatedD)
  have r: "windex_getitem (return_ti False wi) k = Inr (Host inds)" using r0 wi by simp
  have rng: "set inds \<subseteq> {w_shape w0 ! 2..<D}"
    using resolve_in_range[OF layout_in_range[OF lay] _ _ r] tree by simp
  have id: "index_depth mem inds =
          Inr \<lparr>tshape = [W, H, length inds], planes = map (\<lambda>i. planes mem ! i) inds\<rparr>"
    using rng lp sh W H by (auto simp: index_depth_def)
  have g: "fst (World_getitem k w) =
          Inr \<lparr>tshape = [W, H, length inds], planes = map (\<lambda>i. planes mem ! i) inds\<rparr>"
    unfolding World_getitem_alloc[OF mem wi] r by (simp add: id)
  have pz: "planes mem ! (inds ! n) = zero_plane W H"
    if n: "n < length inds" and nt: "inds ! n \<notin> touched (index_tree (the (w_indices w))) ops" for n
  proof -
    have nt': "inds ! n \<notin> touched tree ops" using nt wi tree by simp
    have "inds ! n \<in> set inds" using n by simp
    then have b: "w_shape w0 ! 2 \<le> inds ! n \<and> inds ! n < D" using rng by auto
    have "planes mem ! (inds ! n) = planes (the (w_mem w1)) ! (inds ! n)"
      using World_calls_planes[OF a1 nt'] w mem by simp
    then show ?thesis using zero b by simp
  qed
  show "\<exists>t. fst (World_getitem k w) = Inr t \<and> tshape t = [W, H, length inds] \<and>
                 length (planes t) = length inds \<and>
                 (\<forall>n < length inds. inds ! n \<notin> touched (index_tree (the (w_indices w))) ops \<longrightarrow>
                    planes t ! n = zero_plane W H)"
    unfolding g using pz by simp
next
  assume a: "Substrate_malloc td s0 = (Inr (), s1) \<and> W = s_shape s0 ! 0 \<and> H = s_shape s0 ! 1 \<and>
          s = Substrate_calls sops s1"
  then have m: "Substrate_malloc td s0 = (Inr (), s1)" and W: "W = s_shape s0 ! 0"
    and H: "H = s_shape s0 ! 1" and s: "s = Substrate_calls sops s1"
    by blast+
  have z: "zero_dict (s_shape s0 ! 0) (s_shape s0 ! 1) td" using assms W H by simp
  from Substrate_malloc_zero[OF m z] obtain D where
    D: "s_mem s1 = Some \<lparr>tshape = [1, D, W, H], planes = replicate D (zero_plane W H)\<rparr>"
    using W H by auto
  then have "s_mem s1 \<noteq> None" by simp
  from Substrate_calls_allocated[OF this] s D
  show "\<exists>D. s_mem s = Some \<lparr>tshape = [1, D, W, H], planes = replicate D (zero_plane W H)\<rparr>"
    by auto
qed

text \<open>
  In the 4 x 4 scenario, after writing only \<^verbatim>\<open>b.x\<close> (slots 1 and 2), reading \<^verbatim>\<open>b\<close>
  gives a tensor of shape (4, 4, 3) whose last depth-slice, that of \<^verbatim>\<open>b.y\<close>, is zero;
  the buffer of the substrate is zero everywhere.
\<close>

theorem unwritten_slots_read_zero_witness:
  "zero_dict 4 4 ex_tensor_dict \<and>
   fst (World_malloc (\<lambda>k x y. 7) ex_tensor_dict ex_world) = Inr () \<and>
   well_keyed ex_tensor_dict \<and>
   w_shape ex_world = [4, 4, 0] \<and>
   windex_getitem
     (return_ti False (the (w_indices
        (World_calls [Setitem (Tuple ''b'' (Sub ''x'')) ex_ones2]
           (snd (World_malloc (\<lambda>k x y. 7) ex_tensor_dict ex_world))))))
     (Name ''b'') = Inr (Host [1, 2, 3]) \<and>
   touched (index_tree (the (w_indices
        (World_calls [Setitem (Tuple ''b'' (Sub ''x'')) ex_ones2]
           (snd (World_malloc (\<lambda>k x y. 7) ex_tensor_dict ex_world))))))
     [Setitem (Tuple ''b'' (Sub ''x'')) ex_ones2] = {1, 2} \<and>
   (\<exists>t. fst (World_getitem (Name ''b'')
              (World_calls [Setitem (Tuple ''b'' (Sub ''x'')) ex_ones2]
                 (snd (World_malloc (\<lambda>k x y. 7) ex_tensor_dict ex_world)))) = Inr t \<and>
        tshape t = [4, 4, 3] \<and> planes t ! 2 = zero_plane 4 4) \<and>
   fst (Substrate_malloc ex_tensor_dict ex_substrate) = Inr () \<and>
   s_shape ex_substrate = [4, 4, 0] \<and>
   s_mem (Substrate_calls [SSetitem (Name ''a'') ex_ones1]
            (snd (Substrate_malloc ex_tensor_dict ex_substrate)))
     = Some \<lparr>tshape = [1, 4, 4, 4], planes = replicate 4 (zero_plane 4 4)\<rparr>"
proof -
  let ?g = "\<lambda>(k::nat) (x::nat) (y::nat). 7::int"
  let ?w1 = "snd (World_malloc ?g ex_tensor_dict ex_world)"
  let ?s1 = "snd (Substrate_malloc ex_tensor_dict ex_substrate)"
  let ?ops = "[Setitem (Tuple ''b'' (Sub ''x'')) ex_ones2]"
  let ?sops = "[SSetitem (Name ''a'') ex_ones1]"
  let ?w = "World_calls ?ops ?w1"
  let ?s = "Substrate_calls ?sops ?s1"
  have z: "zero_dict 4 4 ex_tensor_dict"
    by (simp add: zero_dict_def zero_tensor_def depth_of_def torch_zeros_def ex_tensor_dict_def)
  have wk: "well_keyed ex_tensor_dict"
    by (simp add: well_keyed_def ex_tensor_dict_def)
  note em = ex_malloc[of ?g]
  have m1: "World_malloc ?g ex_tensor_dict ex_world = (Inr (), ?w1)"
    using em by (simp add: prod_eq_iff)
  have sm: "Substrate_malloc ex_tensor_dict ex_substrate = (Inr (), ?s1)"
    using ex_substrate_malloc by (simp add: prod_eq_iff)
  from malloc_allocated[OF m1 wk] obtain tree D where
    a1: "allocated tree D (w_shape ex_world) ?w1" by blast
  from a1 em have tree: "tree = ex_tree" by (auto elim!: allocatedD)
  from World_calls_allocated[OF a1, of ?ops] obtain wi where
    wi: "w_indices ?w = Some wi" "index_tree wi = ex_tree"
    using tree by (auto elim!: allocatedD)
  have r: "windex_getitem (return_ti False (the (w_indices ?w))) (Name ''b'') = Inr (Host [1, 2, 3])"
    using wi by (simp add: windex_getitem_def ex_tree_def)
  have t: "touched (index_tree (the (w_indices ?w))) ?ops = {1, 2}"
    using wi by (auto simp: windex_getitem_def get_tuple_inds_def sub_lookup_def ex_tree_def)
  note th = unwritten_slots_read_zero[OF z, of ?g ex_world ?w1 ?w ?ops "Name ''b''" "[1, 2, 3]"
      ex_substrate ?s1 ?s ?sops]
  have h1: "World_malloc ?g ex_tensor_dict ex_world = (Inr (), ?w1) \<and> well_keyed ex_tensor_dict \<and>
      4 = w_shape ex_world ! 0 \<and> 4 = w_shape ex_world ! 1 \<and> ?w = World_calls ?ops ?w1 \<and>
      windex_getitem (return_ti False (the (w_indices ?w))) (Name ''b'') = Inr (Host [1, 2, 3])"
    using m1 wk r by (simp add: ex_world_eq)
  have h2: "Substrate_malloc ex_tensor_dict ex_substrate = (Inr (), ?s1) \<and>
      4 = s_shape ex_substrate ! 0 \<and> 4 = s_shape ex_substrate ! 1 \<and> ?s = Substrate_calls ?sops ?s1"
    using sm by (simp add: ex_substrate_eq)
  from th[THEN conjunct1, THEN mp, OF h1] obtain res where
    res: "fst (World_getitem (Name ''b'') ?w) = Inr res" "tshape res = [4, 4, length [1, 2, 3::nat]]"
      "\<forall>n < length [1, 2, 3::nat].
          [1, 2, 3] ! n \<notin> touched (index_tree (the (w_indices ?w))) ?ops \<longrightarrow>
          planes res ! n = zero_plane 4 4"
    by blast
  have "[1, 2, 3::nat] ! 2 \<notin> touched (index_tree (the (w_indices ?w))) ?ops"
    unfolding t by simp
  with res(3) have "planes res ! 2 = zero_plane 4 4" by simp
  with res(1,2) have c': "\<exists>t. fst (World_getitem (Name ''b'') ?w) = Inr t \<and> tshape t = [4, 4, 3] \<and>
      planes t ! 2 = zero_plane 4 4"
    by simp
  from th[THEN conjunct2, THEN mp, OF h2]
  have d: "\<exists>D. s_mem ?s = Some \<lparr>tshape = [1, D, 4, 4], planes = replicate D (zero_plane 4 4)\<rparr>" .
  have "s_mem ?s1 \<noteq> None" using ex_substrate_malloc by auto
  from Substrate_calls_allocated[OF this] have "?s = ?s1" .
  with d ex_substrate_malloc
  have d': "s_mem ?s = Some \<lparr>tshape = [1, 4, 4, 4], planes = replicate 4 (zero_plane 4 4)\<rparr>"
    by auto
  from z em wk r t c' d' ex_substrate_malloc show ?thesis
    by (simp add: ex_world_eq ex_substrate_eq)
qed

end
